theory Spec2Isabelle
  imports Complex_Main "HOL-Library.Log_Nat"
begin

section \<open>Machine integers\<close>

text \<open>
  Go's \<^verbatim>\<open>int\<close> and \<^verbatim>\<open>uint\<close> are taken at 64 bits (amd64, arm64). They are modelled as
  HOL integers with the wrap-around written out: \<open>wrap64\<close> is the two's complement
  value an \<^verbatim>\<open>int\<close> operation keeps, \<open>to_uint\<close> is the conversion \<^verbatim>\<open>uint(i)\<close>.
  A left shift by a count of 64 or more gives 0, as the Go specification says.
\<close>

definition wrap64 :: "int \<Rightarrow> int" where
  "wrap64 i = (i + 2 ^ 63) mod 2 ^ 64 - 2 ^ 63"

definition to_uint :: "int \<Rightarrow> int" where
  "to_uint i = i mod 2 ^ 64"

definition shl_int :: "int \<Rightarrow> int \<Rightarrow> int" where
  "shl_int a s = (if s < 64 then wrap64 (a * 2 ^ nat s) else 0)"

definition shl_uint :: "int \<Rightarrow> int \<Rightarrow> int" where
  "shl_uint a s = (if s < 64 then (a * 2 ^ nat s) mod 2 ^ 64 else 0)"

section \<open>Floating point\<close>

text \<open>
  A finite \<^verbatim>\<open>float64\<close> is modelled by the real number it denotes. Every arithmetic
  operation of the program computes the exact real result and then rounds it with the
  rounding function \<open>rnd\<close> of the environment; literals and integer conversions are
  rounded the same way. The environment also holds what the program calls and this
  repository's \<^verbatim>\<open>main.go\<close> does not define: \<^verbatim>\<open>math.Cos\<close>, \<^verbatim>\<open>math.Sin\<close> and the noise
  primitive \<^verbatim>\<open>Noise4\<close>.

  Two environments are used. \<open>ideal N\<close> is exact real arithmetic (no rounding, the
  mathematical cosine and sine). \<open>binary64 C S N\<close> rounds to the nearest IEEE 754
  binary64 number, ties to even, each operation on its own; a float64 value is a real
  that \<open>round64\<close> leaves as it is. NaN, the infinities and the sign of zero are
  outside the model: \<open>round64\<close> does not overflow, and a division by zero is made
  explicit where the program can reach one (\<open>tileExtent\<close>).
\<close>

record fenv =
  rnd :: "real \<Rightarrow> real"
  Cos :: "real \<Rightarrow> real"
  Sin :: "real \<Rightarrow> real"
  Noise4 :: "real \<Rightarrow> real \<Rightarrow> real \<Rightarrow> real \<Rightarrow> real"

definition lit :: "fenv \<Rightarrow> real \<Rightarrow> real" where
  "lit E q = rnd E q"

definition float64_of_int :: "fenv \<Rightarrow> int \<Rightarrow> real" where
  "float64_of_int E i = rnd E (of_int i)"

definition fadd :: "fenv \<Rightarrow> real \<Rightarrow> real \<Rightarrow> real" where
  "fadd E a b = rnd E (a + b)"

definition fsub :: "fenv \<Rightarrow> real \<Rightarrow> real \<Rightarrow> real" where
  "fsub E a b = rnd E (a - b)"

definition fmul :: "fenv \<Rightarrow> real \<Rightarrow> real \<Rightarrow> real" where
  "fmul E a b = rnd E (a * b)"

text \<open>The divisor of \<open>fdiv\<close> is not zero wherever the program divides, except in
  \<open>tileExtent\<close>, which tests it first.\<close>

definition fdiv :: "fenv \<Rightarrow> real \<Rightarrow> real \<Rightarrow> real" where
  "fdiv E a b = rnd E (a / b)"

definition Pi :: "fenv \<Rightarrow> real" where
  "Pi E = lit E pi"

definition trunc :: "real \<Rightarrow> int" where
  "trunc x = (if 0 \<le> x then \<lfloor>x\<rfloor> else \<lceil>x\<rceil>)"

text \<open>\<^verbatim>\<open>math.Abs\<close> and \<^verbatim>\<open>math.Mod\<close> are exact in IEEE arithmetic; the result of
  \<^verbatim>\<open>math.Mod\<close> has the sign of its first argument.\<close>

definition Abs :: "real \<Rightarrow> real" where
  "Abs x = \<bar>x\<bar>"

definition Mod :: "real \<Rightarrow> real \<Rightarrow> real" where
  "Mod x y = x - y * of_int (trunc (x / y))"

text \<open>
  The conversion \<^verbatim>\<open>uint8(x)\<close> of a float truncates toward zero. Go leaves the result
  open when the truncated value does not fit; the model keeps its low 8 bits there.
\<close>

definition uint8_of_float :: "real \<Rightarrow> nat" where
  "uint8_of_float x = nat (trunc x mod 256)"

subsection \<open>Rounding to binary64\<close>

definition rne :: "real \<Rightarrow> int" where
  "rne q = (let f = \<lfloor>q\<rfloor>; d = q - of_int f in
     if d < 1 / 2 then f else if 1 / 2 < d then f + 1 else if even f then f else f + 1)"

definition expo :: "real \<Rightarrow> int" where
  "expo x = (if 1 \<le> \<bar>x\<bar> then bitlen \<lfloor>\<bar>x\<bar>\<rfloor> - 1 else - bitlen (\<lceil>1 / \<bar>x\<bar>\<rceil> - 1))"

definition round64 :: "real \<Rightarrow> real" where
  "round64 x = (if x = 0 then 0 else
     let e = max (expo x) (- 1022); u = 2 powi (e - 52) in of_int (rne (x / u)) * u)"

definition ideal :: "(real \<Rightarrow> real \<Rightarrow> real \<Rightarrow> real \<Rightarrow> real) \<Rightarrow> fenv" where
  "ideal N = \<lparr>rnd = (\<lambda>x. x), Cos = cos, Sin = sin, Noise4 = N\<rparr>"

definition binary64 ::
  "(real \<Rightarrow> real) \<Rightarrow> (real \<Rightarrow> real) \<Rightarrow> (real \<Rightarrow> real \<Rightarrow> real \<Rightarrow> real \<Rightarrow> real) \<Rightarrow> fenv" where
  "binary64 C S N = \<lparr>rnd = round64, Cos = C, Sin = S, Noise4 = N\<rparr>"

section \<open>The palette: \<^verbatim>\<open>colouriseByValue\<close>\<close>

record RGBA =
  R :: nat
  G :: nat
  B :: nat
  A :: nat

text \<open>\<open>colouriseByValue_rgb\<close> is the chain of branches of \<^verbatim>\<open>colouriseByValue\<close>: the
  fractional \<^verbatim>\<open>r, g, b\<close> the function holds when it reaches its return statement.\<close>

definition colouriseByValue_rgb :: "fenv \<Rightarrow> real \<Rightarrow> real \<times> real \<times> real" where
  "colouriseByValue_rgb E v =
    (if v < lit E (- 0.1) then
       (lit E 0.0, lit E 0.0, lit E 0.4)
     else if v < lit E 0.2 then
       (let maximum = lit E 0.0 in
        (fadd E (lit E 0.1) (fadd E maximum v),
         fadd E (lit E 0.1) (fadd E maximum v),
         fadd E (lit E 0.5) (fadd E maximum v)))
     else if v < lit E 0.201 then
       (fmul E (lit E 500) (fsub E (lit E 0.202) v),
        fmul E (lit E 500) (fsub E (lit E 0.202) v),
        fmul E (lit E 250) (fsub E (lit E 0.202) v))
     else if v < lit E 0.40 then
       (let maximum = lit E (0.40 + 0.20) in
        (fmul E (lit E 1.2) (fsub E maximum v),
         fmul E (lit E 1.6) (fsub E maximum v),
         fmul E (lit E 0.8) (fsub E maximum v)))
     else if v < lit E 0.60 then
       (let maximum = lit E (0.60 + 0.30) in
        (fmul E (lit E 0.2) (fsub E maximum v),
         fmul E (lit E 0.8) (fsub E maximum v),
         fmul E (lit E 0.1) (fsub E maximum v)))
     else if v < lit E 0.90 then
       (let maximum = lit E 0.90; minimum = lit E 0.10; diff = fsub E maximum minimum in
        (fmul E (fdiv E (lit E 0.8) diff) (fsub E v minimum),
         fmul E (fdiv E (lit E 0.7) diff) (fsub E v minimum),
         fmul E (fdiv E (lit E 0.6) diff) (fsub E v minimum)))
     else if v < lit E 1.2 then
       (fmul E (lit E 0.8) v, fmul E (lit E 0.8) v, fmul E (lit E 0.8) v)
     else
       (lit E 1.0, lit E 1.0, lit E 1.0))"

definition colouriseByValue :: "fenv \<Rightarrow> real \<Rightarrow> RGBA" where
  "colouriseByValue E v =
    (case colouriseByValue_rgb E v of (r, g, b) \<Rightarrow>
       \<lparr>R = uint8_of_float (fmul E r (lit E 255)),
        G = uint8_of_float (fmul E g (lit E 255)),
        B = uint8_of_float (fmul E b (lit E 255)),
        A = 255\<rparr>)"

text \<open>The palette as the specification's table gives it: the band laws over the
  reals, to be compared with \<open>colouriseByValue_rgb\<close>.\<close>

definition palette_table :: "real \<Rightarrow> real \<times> real \<times> real" where
  "palette_table v =
    (if v < - 0.1 then (0, 0, 0.4)
     else if v < 0.2 then (0.1 + v, 0.1 + v, 0.5 + v)
     else if v < 0.201 then (500 * (0.202 - v), 500 * (0.202 - v), 250 * (0.202 - v))
     else if v < 0.40 then (1.2 * (0.60 - v), 1.6 * (0.60 - v), 0.8 * (0.60 - v))
     else if v < 0.60 then (0.2 * (0.90 - v), 0.8 * (0.90 - v), 0.1 * (0.90 - v))
     else if v < 0.90 then
       ((v - 0.10) * 0.8 / 0.80, (v - 0.10) * 0.7 / 0.80, (v - 0.10) * 0.6 / 0.80)
     else if v < 1.2 then (0.8 * v, 0.8 * v, 0.8 * v)
     else (1, 1, 1))"

section \<open>The HSL helper: \<^verbatim>\<open>hslToRGB\<close>\<close>

text \<open>A panic carries the value the program panics with. \<open>hslToRGB_sector\<close> is the
  \<^verbatim>\<open>switch\<close> on the hue sector; \<open>None\<close> is its \<^verbatim>\<open>default\<close> branch.\<close>

datatype panic = PanicString string | PanicBool bool | PanicFloat real

definition hslToRGB_sector :: "fenv \<Rightarrow> real \<Rightarrow> real \<Rightarrow> real \<Rightarrow> (real \<times> real \<times> real) option" where
  "hslToRGB_sector E hueAdj c x =
    (if hueAdj \<le> lit E 1 then Some (c, x, lit E 0)
     else if hueAdj \<le> lit E 2 then Some (x, c, lit E 0)
     else if hueAdj \<le> lit E 3 then Some (lit E 0, c, x)
     else if hueAdj \<le> lit E 4 then Some (lit E 0, x, c)
     else if hueAdj \<le> lit E 5 then Some (x, lit E 0, c)
     else if hueAdj \<le> lit E 6 then Some (c, lit E 0, x)
     else None)"

definition hslToRGB :: "fenv \<Rightarrow> real \<Rightarrow> real \<Rightarrow> real \<Rightarrow> panic + RGBA" where
  "hslToRGB E hue saturation lightness =
    (if hue < lit E 0 \<or> lit E 360 < hue then
       Inl (PanicString ''hue must be from 0 to 360'')
     else if saturation < lit E 0 \<or> lit E 1 < saturation then
       Inl (PanicString ''saturation must be between 0 and 1'')
     else if lightness < lit E 0 \<or> lit E 1 < lightness then
       Inl (PanicString ''lightness must be between 0 and 1'')
     else
       let c = fmul E (fsub E (lit E 1)
                 (Abs (fsub E (fmul E (lit E 2) lightness) (lit E 1)))) saturation;
           hueAdj = fdiv E hue (lit E 60);
           x = fmul E c (fsub E (lit E 1) (Abs (fsub E (Mod hueAdj (lit E 2)) (lit E 1))))
       in case hslToRGB_sector E hueAdj c x of
            None \<Rightarrow> Inl (PanicBool False)
          | Some (r0, g0, b0) \<Rightarrow>
              let m = fsub E lightness (fmul E (lit E 0.5) c);
                  r = fadd E r0 m;
                  g = fadd E g0 m;
                  b = fadd E b0 m
              in if r < lit E 0 \<or> lit E 1.0 < r then Inl (PanicFloat r)
                 else if g < lit E 0 \<or> lit E 1.0 < g then Inl (PanicFloat g)
                 else if b < lit E 0 \<or> lit E 1.0 < b then Inl (PanicFloat b)
                 else Inr \<lparr>R = uint8_of_float (fmul E r (lit E 255)),
                           G = uint8_of_float (fmul E g (lit E 255)),
                           B = uint8_of_float (fmul E b (lit E 255)),
                           A = 255\<rparr>)"

section \<open>Tiles and extents: \<^verbatim>\<open>tileExtent\<close>\<close>

text \<open>
  The fields \<^verbatim>\<open>X\<close> and \<^verbatim>\<open>Y\<close> of \<^verbatim>\<open>Vector\<close> are named \<open>vX\<close> and \<open>vY\<close>, and the
  fields \<^verbatim>\<open>Min\<close> and \<^verbatim>\<open>Max\<close> of \<^verbatim>\<open>Extent\<close> are named \<open>ExtMin\<close> and \<open>ExtMax\<close>: the
  source's names are taken by \<open>TileCoords\<close> and by the library.

  \<open>tileExtent\<close> divides by \<^verbatim>\<open>float64(uint(1)<<uint(coords.Z))\<close>. The shift gives 0
  when \<^verbatim>\<open>Z\<close> is 64 or more; Go then divides by zero and the corners are NaN or
  infinite. The model returns \<open>None\<close> there.
\<close>

record TileCoords =
  Z :: int
  X :: int
  Y :: int

record Vector =
  vX :: real
  vY :: real

record Extent =
  ExtMin :: Vector
  ExtMax :: Vector

definition Sub :: "fenv \<Rightarrow> Vector \<Rightarrow> Vector \<Rightarrow> Vector" where
  "Sub E v u = \<lparr>vX = fsub E (vX v) (vX u), vY = fsub E (vY v) (vY u)\<rparr>"

definition Scale :: "fenv \<Rightarrow> Vector \<Rightarrow> real \<Rightarrow> Vector" where
  "Scale E v f = \<lparr>vX = fmul E (vX v) f, vY = fmul E (vY v) f\<rparr>"

definition tileExtent :: "fenv \<Rightarrow> TileCoords \<Rightarrow> Extent option" where
  "tileExtent E coords =
    (let d = float64_of_int E (shl_uint 1 (to_uint (Z coords))) in
     if d = 0 then None
     else
       let extent = \<lparr>ExtMin = \<lparr>vX = fdiv E (float64_of_int E (X coords)) d,
                                vY = fdiv E (float64_of_int E (Y coords)) d\<rparr>,
                     ExtMax = \<lparr>vX = fdiv E (float64_of_int E (wrap64 (X coords + 1))) d,
                                vY = fdiv E (float64_of_int E (wrap64 (Y coords + 1))) d\<rparr>\<rparr>;
           extent = extent\<lparr>ExtMin := Sub E (ExtMin extent) \<lparr>vX = lit E 0.5, vY = lit E 0.5\<rparr>\<rparr>;
           extent = extent\<lparr>ExtMax := Sub E (ExtMax extent) \<lparr>vX = lit E 0.5, vY = lit E 0.5\<rparr>\<rparr>;
           extent = extent\<lparr>ExtMin := Scale E (ExtMin extent) (lit E 4)\<rparr>;
           extent = extent\<lparr>ExtMax := Scale E (ExtMax extent) (lit E 4)\<rparr>
       in Some extent)"

section \<open>The elevation field: \<^verbatim>\<open>simplexTorus\<close>\<close>

text \<open>
  The loop of \<^verbatim>\<open>simplexTorus\<close> counts \<^verbatim>\<open>z\<close> from 1 while \<^verbatim>\<open>z <= coords.Z+16\<close>. Both
  the bound and the increment are \<^verbatim>\<open>int\<close> operations and wrap; when the bound is the
  largest \<^verbatim>\<open>int\<close> the loop never ends, so the loop is a partial function and
  \<open>None\<close> is the run that does not return.
\<close>

partial_function (option) simplexTorus_loop ::
  "fenv \<Rightarrow> Vector \<Rightarrow> int \<Rightarrow> int \<Rightarrow> real \<Rightarrow> real \<Rightarrow> real option" where
  "simplexTorus_loop E c bound z scale val =
    (if z \<le> bound then
       (let scale = fmul E scale (lit E 2);
            nx = Cos E (fmul E (fmul E (fdiv E (vX c) (lit E 2)) scale) (Pi E));
            nz = Sin E (fmul E (fmul E (fdiv E (vX c) (lit E 2)) scale) (Pi E));
            ny = Cos E (fmul E (fmul E (fdiv E (vY c) (lit E 2)) scale) (Pi E));
            nw = Sin E (fmul E (fmul E (fdiv E (vY c) (lit E 2)) scale) (Pi E));
            val = fadd E val (fdiv E (Noise4 E nx ny nz nw) scale)
        in simplexTorus_loop E c bound (wrap64 (z + 1)) scale val)
     else Some val)"

definition simplexTorus :: "fenv \<Rightarrow> Vector \<Rightarrow> TileCoords \<Rightarrow> real option" where
  "simplexTorus E c coords =
    (let nx = Cos E (fmul E (fdiv E (vX c) (lit E 2)) (Pi E));
         nz = Sin E (fmul E (fdiv E (vX c) (lit E 2)) (Pi E));
         ny = Cos E (fmul E (fdiv E (vY c) (lit E 2)) (Pi E));
         nw = Sin E (fmul E (fdiv E (vY c) (lit E 2)) (Pi E));
         val = Noise4 E nx ny nz nw;
         scale = float64_of_int E 1
     in simplexTorus_loop E c (wrap64 (Z coords + 16)) 1 scale val)"

text \<open>The passes of the loop, counted: \<open>octaves E c n scale val\<close> is the value after
  \<open>n\<close> more passes through the loop body. It is what the loop is compared with.\<close>

fun octaves :: "fenv \<Rightarrow> Vector \<Rightarrow> nat \<Rightarrow> real \<Rightarrow> real \<Rightarrow> real" where
  "octaves E c 0 scale val = val"
| "octaves E c (Suc n) scale val =
    (let scale = fmul E scale (lit E 2);
         nx = Cos E (fmul E (fmul E (fdiv E (vX c) (lit E 2)) scale) (Pi E));
         nz = Sin E (fmul E (fmul E (fdiv E (vX c) (lit E 2)) scale) (Pi E));
         ny = Cos E (fmul E (fmul E (fdiv E (vY c) (lit E 2)) scale) (Pi E));
         nw = Sin E (fmul E (fmul E (fdiv E (vY c) (lit E 2)) scale) (Pi E));
         val = fadd E val (fdiv E (Noise4 E nx ny nz nw) scale)
     in octaves E c n scale val)"

subsection \<open>The octave sum, exactly and in float64\<close>

text \<open>
  \<open>octave_sum\<close> is the sum the specification gives for the elevation: the noise at the
  four circle coordinates, plus for each octave k the noise at the angle times 2^k,
  divided by 2^k. \<open>octave_sum64\<close> is the same sum as float64 arithmetic accumulates
  it, from the first octave to the last, each operation rounded: the angle at the base is
  \<open>angle64_0 t\<close>, the float64 product of the float64 value of t / 2 with the float64
  value of pi, and at octave k it is \<open>angle64 t k\<close>, where the half is first
  multiplied by 2^k. These are what \<open>simplexTorus\<close> is compared with.

  \<open>eps64\<close> is the unit roundoff 2^-53 of binary64 and \<open>tiny64\<close> is 2^-1075, half
  the smallest subnormal number. \<open>octave_tolerance L M \<eta> c\<close> bounds the error one octave
  adds at the point c, for a noise primitive that is L-Lipschitz in the 1-norm and
  bounded by M, and a cosine and sine accurate to \<eta>.
\<close>

definition octave_sum :: "(real \<Rightarrow> real \<Rightarrow> real \<Rightarrow> real \<Rightarrow> real) \<Rightarrow> Vector \<Rightarrow> nat \<Rightarrow> real" where
  "octave_sum N c n =
     N (cos (vX c * pi / 2)) (cos (vY c * pi / 2)) (sin (vX c * pi / 2)) (sin (vY c * pi / 2)) +
     (\<Sum>k = 1..n. N (cos (vX c * pi / 2 * 2 ^ k)) (cos (vY c * pi / 2 * 2 ^ k))
                     (sin (vX c * pi / 2 * 2 ^ k)) (sin (vY c * pi / 2 * 2 ^ k)) / 2 ^ k)"

definition angle64_0 :: "real \<Rightarrow> real" where
  "angle64_0 t = round64 (round64 (t / 2) * round64 pi)"

definition angle64 :: "real \<Rightarrow> nat \<Rightarrow> real" where
  "angle64 t k = round64 (round64 (round64 (t / 2) * 2 ^ k) * round64 pi)"

fun octave_sum64 ::
  "(real \<Rightarrow> real) \<Rightarrow> (real \<Rightarrow> real) \<Rightarrow> (real \<Rightarrow> real \<Rightarrow> real \<Rightarrow> real \<Rightarrow> real) \<Rightarrow> Vector \<Rightarrow> nat \<Rightarrow> real" where
  "octave_sum64 C S N c 0 =
     N (C (angle64_0 (vX c))) (C (angle64_0 (vY c))) (S (angle64_0 (vX c))) (S (angle64_0 (vY c)))"
| "octave_sum64 C S N c (Suc k) =
     round64 (octave_sum64 C S N c k +
       round64 (N (C (angle64 (vX c) (Suc k))) (C (angle64 (vY c) (Suc k)))
                  (S (angle64 (vX c) (Suc k))) (S (angle64 (vY c) (Suc k))) / 2 ^ Suc k))"

definition eps64 :: real where
  "eps64 = 1 / 2 ^ 53"

definition tiny64 :: real where
  "tiny64 = 1 / 2 ^ 1075"

definition octave_tolerance :: "real \<Rightarrow> real \<Rightarrow> real \<Rightarrow> Vector \<Rightarrow> real" where
  "octave_tolerance L M \<eta> c =
     L * (4 * \<eta> + 16 * eps64 * (\<bar>vX c\<bar> + \<bar>vY c\<bar>) + 40 * tiny64) + 3 * eps64 * M + 2 * tiny64"

section \<open>The rasterizer: \<^verbatim>\<open>renderTile\<close>\<close>

text \<open>
  An image is its rectangle (from the origin) and its pixels in row-major order.
  \<open>SetRGBA\<close> leaves the image as it is outside the rectangle, and \<open>RGBAAt\<close> is the
  zero colour there, as in Go's \<^verbatim>\<open>image\<close> package. \<open>renderTile_point\<close> is the vector
  \<^verbatim>\<open>c\<close> of the inner loop body; \<open>renderTile_x\<close> and \<open>renderTile_y\<close> are the inner and
  the outer loop.
\<close>

record Image =
  Width :: nat
  Height :: nat
  Pix :: "RGBA list"

definition NewRGBA :: "nat \<Rightarrow> nat \<Rightarrow> Image" where
  "NewRGBA w h = \<lparr>Width = w, Height = h, Pix = replicate (w * h) \<lparr>R = 0, G = 0, B = 0, A = 0\<rparr>\<rparr>"

definition SetRGBA :: "Image \<Rightarrow> nat \<Rightarrow> nat \<Rightarrow> RGBA \<Rightarrow> Image" where
  "SetRGBA img x y colour =
    (if x < Width img \<and> y < Height img
     then img\<lparr>Pix := (Pix img)[y * Width img + x := colour]\<rparr>
     else img)"

definition RGBAAt :: "Image \<Rightarrow> nat \<Rightarrow> nat \<Rightarrow> RGBA" where
  "RGBAAt img x y =
    (if x < Width img \<and> y < Height img
     then Pix img ! (y * Width img + x)
     else \<lparr>R = 0, G = 0, B = 0, A = 0\<rparr>)"

definition tileSize :: nat where
  "tileSize = 256"

definition renderTile_point :: "fenv \<Rightarrow> Extent \<Rightarrow> nat \<Rightarrow> nat \<Rightarrow> Vector" where
  "renderTile_point E extent x y =
    \<lparr>vX = fadd E (vX (ExtMin extent))
            (fdiv E (fmul E (fsub E (vX (ExtMax extent)) (vX (ExtMin extent)))
                       (float64_of_int E (int x))) (lit E (real tileSize))),
     vY = fadd E (vY (ExtMin extent))
            (fdiv E (fmul E (fsub E (vX (ExtMax extent)) (vX (ExtMin extent)))
                       (float64_of_int E (int y))) (lit E (real tileSize)))\<rparr>"

function renderTile_x ::
  "fenv \<Rightarrow> Extent \<Rightarrow> TileCoords \<Rightarrow> nat \<Rightarrow> nat \<Rightarrow> Image \<Rightarrow> Image option" where
  "renderTile_x E extent coords y x tile =
    (if x < tileSize then
       (let c = renderTile_point E extent x y in
        case simplexTorus E c coords of
          None \<Rightarrow> None
        | Some val \<Rightarrow>
            (let colour = colouriseByValue E val in
             renderTile_x E extent coords y (x + 1) (SetRGBA tile x y colour)))
     else Some tile)"
  by pat_completeness auto
termination
  by (relation "measure (\<lambda>(E, extent, coords, y, x, tile). tileSize - x)") auto

function renderTile_y ::
  "fenv \<Rightarrow> Extent \<Rightarrow> TileCoords \<Rightarrow> nat \<Rightarrow> Image \<Rightarrow> Image option" where
  "renderTile_y E extent coords y tile =
    (if y < tileSize then
       (case renderTile_x E extent coords y 0 tile of
          None \<Rightarrow> None
        | Some tile \<Rightarrow> renderTile_y E extent coords (y + 1) tile)
     else Some tile)"
  by pat_completeness auto
termination
  by (relation "measure (\<lambda>(E, extent, coords, y, tile). tileSize - y)") auto

definition renderTile :: "fenv \<Rightarrow> TileCoords \<Rightarrow> Image option" where
  "renderTile E coords =
    (case tileExtent E coords of
       None \<Rightarrow> None
     | Some extent \<Rightarrow> renderTile_y E extent coords 0 (NewRGBA tileSize tileSize))"

subsection \<open>Runs of the rasterizer with a noise primitive that keeps state\<close>

text \<open>
  \<^verbatim>\<open>Noise4\<close> is not defined in \<^verbatim>\<open>main.go\<close>, and a noise primitive keeps state (its
  permutation tables). Here a call of the primitive is any relation
  \<open>noise s a b c d v s'\<close> between the state \<open>s\<close> it is called in, its four arguments,
  the value \<open>v\<close> it returns and the state \<open>s'\<close> it leaves. The relations below are the
  runs of \<^verbatim>\<open>simplexTorus\<close> and \<^verbatim>\<open>renderTile\<close> with such a primitive, statement by
  statement as the functions above, the noise state threaded through the calls in the
  order the program makes them: \<open>renderTile_run E noise coords s t s'\<close> is a render of
  the tile that starts in the noise state \<open>s\<close>, returns the buffer \<open>t\<close> and leaves the
  noise state \<open>s'\<close>. The field \<open>Noise4\<close> of the environment is not read.

  \<open>pure_noise N\<close> is the primitive that computes the function \<open>N\<close> and keeps no
  state. A primitive is \<open>noise_functional\<close> when its state and arguments determine its
  value and the state it leaves, and \<open>noise_returns\<close> when every call returns.
\<close>

type_synonym 'st noise = "'st \<Rightarrow> real \<Rightarrow> real \<Rightarrow> real \<Rightarrow> real \<Rightarrow> real \<Rightarrow> 'st \<Rightarrow> bool"

inductive simplexTorus_loop_run ::
  "fenv \<Rightarrow> 'st noise \<Rightarrow> Vector \<Rightarrow> int \<Rightarrow> int \<Rightarrow> real \<Rightarrow> real \<Rightarrow> 'st \<Rightarrow> real \<Rightarrow> 'st \<Rightarrow> bool"
  for E :: fenv and noise :: "'st noise" and c :: Vector and bound :: int where
  loop_exit: "\<not> z \<le> bound \<Longrightarrow> simplexTorus_loop_run E noise c bound z scale val s val s"
| loop_pass: "z \<le> bound \<Longrightarrow> scale' = fmul E scale (lit E 2) \<Longrightarrow>
     noise s (Cos E (fmul E (fmul E (fdiv E (vX c) (lit E 2)) scale') (Pi E)))
             (Cos E (fmul E (fmul E (fdiv E (vY c) (lit E 2)) scale') (Pi E)))
             (Sin E (fmul E (fmul E (fdiv E (vX c) (lit E 2)) scale') (Pi E)))
             (Sin E (fmul E (fmul E (fdiv E (vY c) (lit E 2)) scale') (Pi E))) v s1 \<Longrightarrow>
     simplexTorus_loop_run E noise c bound (wrap64 (z + 1)) scale' (fadd E val (fdiv E v scale')) s1 r s' \<Longrightarrow>
     simplexTorus_loop_run E noise c bound z scale val s r s'"

inductive simplexTorus_run ::
  "fenv \<Rightarrow> 'st noise \<Rightarrow> Vector \<Rightarrow> TileCoords \<Rightarrow> 'st \<Rightarrow> real \<Rightarrow> 'st \<Rightarrow> bool"
  for E :: fenv and noise :: "'st noise" and c :: Vector and coords :: TileCoords where
  torus_run: "noise s (Cos E (fmul E (fdiv E (vX c) (lit E 2)) (Pi E)))
             (Cos E (fmul E (fdiv E (vY c) (lit E 2)) (Pi E)))
             (Sin E (fmul E (fdiv E (vX c) (lit E 2)) (Pi E)))
             (Sin E (fmul E (fdiv E (vY c) (lit E 2)) (Pi E))) v s1 \<Longrightarrow>
     simplexTorus_loop_run E noise c (wrap64 (Z coords + 16)) 1 (float64_of_int E 1) v s1 r s' \<Longrightarrow>
     simplexTorus_run E noise c coords s r s'"

inductive renderTile_x_run ::
  "fenv \<Rightarrow> 'st noise \<Rightarrow> Extent \<Rightarrow> TileCoords \<Rightarrow> nat \<Rightarrow> nat \<Rightarrow> Image \<Rightarrow> 'st \<Rightarrow> Image \<Rightarrow> 'st \<Rightarrow> bool"
  for E :: fenv and noise :: "'st noise" and extent :: Extent and coords :: TileCoords and y :: nat where
  x_exit: "\<not> x < tileSize \<Longrightarrow> renderTile_x_run E noise extent coords y x tile s tile s"
| x_pass: "x < tileSize \<Longrightarrow>
     simplexTorus_run E noise (renderTile_point E extent x y) coords s val s1 \<Longrightarrow>
     renderTile_x_run E noise extent coords y (x + 1) (SetRGBA tile x y (colouriseByValue E val)) s1 t s' \<Longrightarrow>
     renderTile_x_run E noise extent coords y x tile s t s'"

inductive renderTile_y_run ::
  "fenv \<Rightarrow> 'st noise \<Rightarrow> Extent \<Rightarrow> TileCoords \<Rightarrow> nat \<Rightarrow> Image \<Rightarrow> 'st \<Rightarrow> Image \<Rightarrow> 'st \<Rightarrow> bool"
  for E :: fenv and noise :: "'st noise" and extent :: Extent and coords :: TileCoords where
  y_exit: "\<not> y < tileSize \<Longrightarrow> renderTile_y_run E noise extent coords y tile s tile s"
| y_pass: "y < tileSize \<Longrightarrow>
     renderTile_x_run E noise extent coords y 0 tile s row s1 \<Longrightarrow>
     renderTile_y_run E noise extent coords (y + 1) row s1 t s' \<Longrightarrow>
     renderTile_y_run E noise extent coords y tile s t s'"

inductive renderTile_run ::
  "fenv \<Rightarrow> 'st noise \<Rightarrow> TileCoords \<Rightarrow> 'st \<Rightarrow> Image \<Rightarrow> 'st \<Rightarrow> bool"
  for E :: fenv and noise :: "'st noise" and coords :: TileCoords where
  tile_run: "tileExtent E coords = Some extent \<Longrightarrow>
     renderTile_y_run E noise extent coords 0 (NewRGBA tileSize tileSize) s t s' \<Longrightarrow>
     renderTile_run E noise coords s t s'"

code_pred (modes: i \<Rightarrow> (i \<Rightarrow> i \<Rightarrow> i \<Rightarrow> i \<Rightarrow> i \<Rightarrow> o \<Rightarrow> o \<Rightarrow> bool) \<Rightarrow> i \<Rightarrow> i \<Rightarrow> i \<Rightarrow> i \<Rightarrow> i \<Rightarrow> i \<Rightarrow> o \<Rightarrow> o \<Rightarrow> bool) simplexTorus_loop_run .
code_pred (modes: i \<Rightarrow> (i \<Rightarrow> i \<Rightarrow> i \<Rightarrow> i \<Rightarrow> i \<Rightarrow> o \<Rightarrow> o \<Rightarrow> bool) \<Rightarrow> i \<Rightarrow> i \<Rightarrow> i \<Rightarrow> o \<Rightarrow> o \<Rightarrow> bool) simplexTorus_run .
code_pred (modes: i \<Rightarrow> (i \<Rightarrow> i \<Rightarrow> i \<Rightarrow> i \<Rightarrow> i \<Rightarrow> o \<Rightarrow> o \<Rightarrow> bool) \<Rightarrow> i \<Rightarrow> i \<Rightarrow> i \<Rightarrow> i \<Rightarrow> i \<Rightarrow> i \<Rightarrow> o \<Rightarrow> o \<Rightarrow> bool) renderTile_x_run .
code_pred (modes: i \<Rightarrow> (i \<Rightarrow> i \<Rightarrow> i \<Rightarrow> i \<Rightarrow> i \<Rightarrow> o \<Rightarrow> o \<Rightarrow> bool) \<Rightarrow> i \<Rightarrow> i \<Rightarrow> i \<Rightarrow> i \<Rightarrow> i \<Rightarrow> o \<Rightarrow> o \<Rightarrow> bool) renderTile_y_run .
code_pred (modes: i \<Rightarrow> (i \<Rightarrow> i \<Rightarrow> i \<Rightarrow> i \<Rightarrow> i \<Rightarrow> o \<Rightarrow> o \<Rightarrow> bool) \<Rightarrow> i \<Rightarrow> i \<Rightarrow> o \<Rightarrow> o \<Rightarrow> bool) renderTile_run .

definition pure_noise :: "(real \<Rightarrow> real \<Rightarrow> real \<Rightarrow> real \<Rightarrow> real) \<Rightarrow> 'st noise" where
  "pure_noise N s a b c d v s' = (v = N a b c d \<and> s' = s)"

definition noise_functional :: "'st noise \<Rightarrow> bool" where
  "noise_functional noise =
     (\<forall>s a b c d v s1 v' s2. noise s a b c d v s1 \<longrightarrow> noise s a b c d v' s2 \<longrightarrow> v' = v \<and> s2 = s1)"

definition noise_returns :: "'st noise \<Rightarrow> bool" where
  "noise_returns noise = (\<forall>s a b c d. \<exists>v s1. noise s a b c d v s1)"

section \<open>Request validation: \<^verbatim>\<open>extractTileCoords\<close> and \<^verbatim>\<open>tileServer\<close>\<close>

text \<open>
  \<open>pathRegex_FindStringSubmatch\<close> matches the regular expression
  \<^verbatim>\<open>^/(\d+)/(\d+)/(\d+)\.png$\<close>: the result is empty when the path does not match,
  and the path followed by the three groups when it does. \<open>Atoi\<close> is \<^verbatim>\<open>strconv.Atoi\<close>
  for a 64-bit \<^verbatim>\<open>int\<close>: an optional sign, decimal digits, and a range error when the
  number does not fit. \<open>tileServer\<close> is the handler up to the PNG encoder: it answers
  400, or renders the tile.
\<close>

definition isDigit :: "char \<Rightarrow> bool" where
  "isDigit ch = (48 \<le> (of_char ch :: nat) \<and> (of_char ch :: nat) \<le> 57)"

definition digits_value :: "string \<Rightarrow> int" where
  "digits_value ds = foldl (\<lambda>n ch. 10 * n + (int (of_char ch) - 48)) 0 ds"

definition pathRegex_FindStringSubmatch :: "string \<Rightarrow> string list" where
  "pathRegex_FindStringSubmatch path =
    (case path of
       c1 # r1 \<Rightarrow>
         if c1 \<noteq> CHR ''/'' then [] else
         (let zs = takeWhile isDigit r1; r2 = dropWhile isDigit r1 in
          if zs = [] then [] else
          case r2 of
            c2 # r3 \<Rightarrow>
              if c2 \<noteq> CHR ''/'' then [] else
              (let xs = takeWhile isDigit r3; r4 = dropWhile isDigit r3 in
               if xs = [] then [] else
               case r4 of
                 c3 # r5 \<Rightarrow>
                   if c3 \<noteq> CHR ''/'' then [] else
                   (let ys = takeWhile isDigit r5; r6 = dropWhile isDigit r5 in
                    if ys = [] then [] else
                    if r6 = ''.png'' then [path, zs, xs, ys] else [])
               | [] \<Rightarrow> [])
          | [] \<Rightarrow> [])
     | [] \<Rightarrow> [])"

datatype NumError = ErrSyntax | ErrRange

definition Atoi :: "string \<Rightarrow> NumError + int" where
  "Atoi s =
    (let neg = (s \<noteq> [] \<and> hd s = CHR ''-'');
         ds = (if s \<noteq> [] \<and> (hd s = CHR ''+'' \<or> hd s = CHR ''-'') then tl s else s)
     in if ds = [] \<or> \<not> list_all isDigit ds then Inl ErrSyntax
        else
          let n = digits_value ds in
          if neg then (if n \<le> 2 ^ 63 then Inr (- n) else Inl ErrRange)
          else (if n < 2 ^ 63 then Inr n else Inl ErrRange))"

datatype error =
    NotEnoughMatches nat
  | ExtractingZ NumError
  | ExtractingX NumError
  | ExtractingY NumError
  | InvalidTileCoordinates TileCoords

definition extractTileCoords :: "string \<Rightarrow> error + TileCoords" where
  "extractTileCoords path =
    (let matches = pathRegex_FindStringSubmatch path in
     if length matches \<noteq> 4 then Inl (NotEnoughMatches (length matches))
     else
       case Atoi (matches ! 1) of
         Inl err \<Rightarrow> Inl (ExtractingZ err)
       | Inr z \<Rightarrow>
       case Atoi (matches ! 2) of
         Inl err \<Rightarrow> Inl (ExtractingX err)
       | Inr x \<Rightarrow>
       case Atoi (matches ! 3) of
         Inl err \<Rightarrow> Inl (ExtractingY err)
       | Inr y \<Rightarrow>
         (let coords = \<lparr>Z = z, X = x, Y = y\<rparr>;
              max' = shl_int 1 (to_uint (Z coords))
          in if X coords < 0 \<or> max' \<le> X coords \<or> Y coords < 0 \<or> max' \<le> Y coords
             then Inl (InvalidTileCoordinates coords)
             else Inr coords))"

datatype response = StatusBadRequest | Tile "Image option"

definition tileServer :: "fenv \<Rightarrow> string \<Rightarrow> response" where
  "tileServer E path =
    (case extractTileCoords path of
       Inl err \<Rightarrow> StatusBadRequest
     | Inr coords \<Rightarrow> Tile (renderTile E coords))"

section \<open>The two arithmetics\<close>

lemma ideal_simps:
  "lit (ideal N) q = q"
  "float64_of_int (ideal N) i = of_int i"
  "fadd (ideal N) a b = a + b"
  "fsub (ideal N) a b = a - b"
  "fmul (ideal N) a b = a * b"
  "fdiv (ideal N) a b = a / b"
  "Pi (ideal N) = pi"
  "Cos (ideal N) = cos"
  "Sin (ideal N) = sin"
  "Noise4 (ideal N) = N"
  by (simp_all add: ideal_def lit_def float64_of_int_def fadd_def fsub_def fmul_def fdiv_def
      Pi_def)

subsection \<open>Operations of binary64 that do not round\<close>

lemma rne_of_int: "rne (of_int k) = k"
  by (simp add: rne_def)

lemma expo_lower:
  assumes "x \<noteq> 0"
  shows "2 powi (expo x) \<le> \<bar>x\<bar>"
proof (cases "1 \<le> \<bar>x\<bar>")
  case True
  define n where "n = \<lfloor>\<bar>x\<bar>\<rfloor>"
  have n: "0 < n" using True unfolding n_def by linarith
  have b: "1 \<le> bitlen n" using n bitlen_nonneg [of n] bitlen_eq_zero_iff [of n] by linarith
  have "(2::int) ^ nat (bitlen n - 1) \<le> n"
    using bitlen_bounds [OF n] by simp
  then have "(2::real) ^ nat (bitlen n - 1) \<le> of_int n"
    by (metis of_int_le_iff of_int_numeral of_int_power)
  also have "\<dots> \<le> \<bar>x\<bar>" unfolding n_def by linarith
  finally show ?thesis
    using True b by (simp add: expo_def n_def power_int_nonneg_exp)
next
  case False
  define y where "y = 1 / \<bar>x\<bar>"
  define n where "n = \<lceil>y\<rceil> - 1"
  have x: "0 < \<bar>x\<bar>" "\<bar>x\<bar> < 1" using assms False by simp_all
  have y: "1 < y" unfolding y_def using x by simp
  have n: "0 < n" using y unfolding n_def by linarith
  have yn: "y \<le> of_int n + 1" unfolding n_def by simp
  have "n < 2 ^ nat (bitlen n)" using bitlen_bounds [OF n] by simp
  then have "n + 1 \<le> 2 ^ nat (bitlen n)" by simp
  then have "of_int (n + 1) \<le> (2::real) ^ nat (bitlen n)"
    by (metis of_int_le_iff of_int_numeral of_int_power)
  with yn have "y \<le> 2 ^ nat (bitlen n)" by simp
  then have "1 / 2 ^ nat (bitlen n) \<le> \<bar>x\<bar>"
    unfolding y_def using x by (simp add: field_simps)
  moreover have "2 powi (- bitlen n) = (1::real) / 2 ^ nat (bitlen n)"
    using bitlen_nonneg [of n] by (simp add: power_int_minus_divide power_int_nonneg_exp)
  ultimately show ?thesis
    using False by (simp add: expo_def n_def y_def)
qed

lemma round64_exact_lt:
  assumes x: "x = of_int m * 2 powi e" and m: "\<bar>m\<bar> < 2 ^ 53" and e: "- 1074 \<le> e"
  shows "round64 x = x"
proof (cases "x = 0")
  case True
  then show ?thesis by (simp add: round64_def)
next
  case False
  define s where "s = max (expo x) (- 1022) - 52"
  have "\<bar>x\<bar> = of_int \<bar>m\<bar> * 2 powi e"
    unfolding x by (simp add: abs_mult)
  also have "\<dots> < 2 ^ 53 * 2 powi e"
  proof -
    have "(of_int \<bar>m\<bar> :: real) < 2 ^ 53"
      using m by (metis of_int_less_iff of_int_numeral of_int_power)
    then show ?thesis by (simp add: mult_strict_right_mono)
  qed
  also have "\<dots> = 2 powi (53 + e)"
    by (simp add: power_int_add)
  finally have "\<bar>x\<bar> < 2 powi (53 + e)" .
  with expo_lower [OF False] have "(2::real) powi (expo x) < 2 powi (53 + e)"
    by linarith
  then have "expo x < 53 + e"
    by (metis linorder_not_less numeral_One numeral_le_iff one_le_numeral power_int_increasing semiring_norm(68))
  then have se: "s \<le> e" unfolding s_def using e by simp
  define k where "k = m * 2 ^ nat (e - s)"
  have "x / 2 powi s = of_int m * 2 powi (e - s)"
    unfolding x by (simp add: power_int_diff)
  also have "\<dots> = of_int k"
    unfolding k_def using se by (simp add: power_int_nonneg_exp)
  finally have q: "x / 2 powi s = of_int k" .
  have "round64 x = of_int (rne (x / 2 powi s)) * 2 powi s"
    using False by (simp add: round64_def s_def Let_def)
  also have "\<dots> = x / 2 powi s * 2 powi s"
    unfolding q rne_of_int ..
  also have "\<dots> = x" by simp
  finally show ?thesis .
qed

lemma round64_exact:
  assumes x: "x = of_int m * 2 powi e" and m: "\<bar>m\<bar> \<le> 2 ^ 53" and e: "- 1074 \<le> e"
  shows "round64 x = x"
proof (cases "\<bar>m\<bar> < 2 ^ 53")
  case True
  from x True e show ?thesis by (rule round64_exact_lt)
next
  case False
  with m have "m = 2 ^ 53 \<or> m = - (2 ^ 53)" by linarith
  moreover have p: "(2::real) powi (e + 53) = 2 ^ 53 * 2 powi e"
    by (simp add: power_int_add)
  ultimately have "x = of_int 1 * 2 powi (e + 53) \<or> x = of_int (- 1) * 2 powi (e + 53)"
    unfolding x p by auto
  then show ?thesis
  proof
    assume "x = of_int 1 * 2 powi (e + 53)"
    then show ?thesis
      using e by (intro round64_exact_lt [where m = 1 and e = "e + 53"]) simp_all
  next
    assume "x = of_int (- 1) * 2 powi (e + 53)"
    then show ?thesis
      using e by (intro round64_exact_lt [where m = "- 1" and e = "e + 53"]) simp_all
  qed
qed

lemma binary64_simps:
  "lit (binary64 C S N) q = round64 q"
  "float64_of_int (binary64 C S N) i = round64 (of_int i)"
  "fadd (binary64 C S N) a b = round64 (a + b)"
  "fsub (binary64 C S N) a b = round64 (a - b)"
  "fmul (binary64 C S N) a b = round64 (a * b)"
  "fdiv (binary64 C S N) a b = round64 (a / b)"
  by (simp_all add: binary64_def lit_def float64_of_int_def fadd_def fsub_def fmul_def fdiv_def)

lemma round64_int:
  assumes "\<bar>m\<bar> \<le> 2 ^ 53"
  shows "round64 (of_int m) = of_int m"
  using assms by (intro round64_exact [where m = m and e = 0]) simp_all

lemma two_powi_neg: "0 \<le> z \<Longrightarrow> (2::real) powi (- z) = 1 / 2 ^ nat z"
  by (simp add: power_int_minus_divide power_int_nonneg_exp)

lemma round64_dyadic:
  assumes "\<bar>m\<bar> \<le> 2 ^ 53" "0 \<le> z" "z \<le> 1074"
  shows "round64 (of_int m / 2 ^ nat z) = of_int m / 2 ^ nat z"
proof -
  have "of_int m / 2 ^ nat z = of_int m * (2::real) powi (- z)"
    using assms(2) by (simp only: two_powi_neg) simp
  then show ?thesis
    using assms by (intro round64_exact [where m = m and e = "- z"]) simp_all
qed

lemma round64_half: "round64 0.5 = 1 / 2"
  using round64_dyadic [of 1 1] by simp

lemma round64_four: "round64 4 = 4"
  using round64_int [of 4] by simp


lemma corner_exact:
  fixes C S :: "real \<Rightarrow> real" and N :: "real \<Rightarrow> real \<Rightarrow> real \<Rightarrow> real \<Rightarrow> real"
  assumes z: "0 \<le> z" "z \<le> 53" and a: "0 \<le> a" "a \<le> 2 ^ nat z"
  defines "F \<equiv> binary64 C S N"
  shows "fmul F (fsub F (fdiv F (float64_of_int F a) (float64_of_int F (2 ^ nat z)))
           (lit F 0.5)) (lit F 4) = 4 * (of_int a / 2 ^ nat z - 1 / 2)"
proof -
  have p: "(2::int) ^ nat z \<le> 2 ^ 53"
    using z by (intro power_increasing) simp_all
  have am: "\<bar>a\<bar> \<le> 2 ^ 53" using a p by simp
  have dm: "\<bar>2 * a - 2 ^ nat z\<bar> \<le> 2 ^ 53" using a p by simp
  have r1: "round64 (of_int a) = of_int a"
    using am by (rule round64_int)
  have r2: "round64 (of_int (2 ^ nat z)) = 2 ^ nat z"
    using round64_int [of "2 ^ nat z"] p by simp
  have r3: "round64 (of_int a / 2 ^ nat z) = of_int a / 2 ^ nat z"
    using am z by (intro round64_dyadic) simp_all
  have e5: "(of_int a :: real) / 2 ^ nat z - 1 / 2 = of_int (2 * a - 2 ^ nat z) / 2 ^ nat (z + 1)"
    using z by (simp add: nat_add_distrib field_simps)
  have r5: "round64 (of_int a / 2 ^ nat z - 1 / 2) = of_int a / 2 ^ nat z - 1 / 2"
    unfolding e5 using dm z by (intro round64_dyadic) simp_all
  have e7: "((of_int a :: real) / 2 ^ nat z - 1 / 2) * 4 = of_int (4 * (2 * a - 2 ^ nat z)) / 2 ^ nat (z + 1)"
    using z by (simp add: nat_add_distrib field_simps)
  have r7: "round64 ((of_int a / 2 ^ nat z - 1 / 2) * 4) = (of_int a / 2 ^ nat z - 1 / 2) * 4"
  proof (cases "z = 0")
    case True
    have "\<bar>4 * a - 2\<bar> \<le> 2 ^ 53" using a True by simp
    from round64_int [OF this] show ?thesis using True by (simp add: algebra_simps)
  next
    case False
    have e: "((of_int a :: real) / 2 ^ nat z - 1 / 2) * 4 = of_int (2 * a - 2 ^ nat z) / 2 ^ nat (z - 1)"
    proof -
      have "nat z = Suc (nat (z - 1))" using z False by simp
      then have "(2::real) ^ nat z = 2 * 2 ^ nat (z - 1)" by simp
      then show ?thesis by (simp add: field_simps)
    qed
    show ?thesis
      unfolding e using dm z False by (intro round64_dyadic) simp_all
  qed
  have "round64 (round64 (round64 (round64 (of_int a) / round64 (of_int (2 ^ nat z)))
      - round64 0.5) * round64 4) = (of_int a / 2 ^ nat z - 1 / 2) * 4"
    by (simp only: r1 r2 r3 round64_half r5 round64_four r7)
  then show ?thesis
    unfolding F_def binary64_simps by (simp only: mult.commute)
qed

lemma shl_uint_one:
  assumes "0 \<le> z" "z < 64"
  shows "shl_uint 1 (to_uint z) = 2 ^ nat z"
proof -
  have "(2::int) ^ nat z < 2 ^ 64"
    using assms by (intro power_strict_increasing) simp_all
  moreover have "to_uint z = z"
    using assms by (simp add: to_uint_def)
  ultimately show ?thesis using assms by (simp add: shl_uint_def)
qed

lemma wrap64_id: "- (2 ^ 63) \<le> i \<Longrightarrow> i < 2 ^ 63 \<Longrightarrow> wrap64 i = i"
  by (simp add: wrap64_def)

lemma tileExtent_unfold:
  "tileExtent E c =
    (let d = float64_of_int E (shl_uint 1 (to_uint (Z c))) in
     if d = 0 then None
     else Some
       \<lparr>ExtMin =
          \<lparr>vX = fmul E (fsub E (fdiv E (float64_of_int E (X c)) d) (lit E 0.5)) (lit E 4),
           vY = fmul E (fsub E (fdiv E (float64_of_int E (Y c)) d) (lit E 0.5)) (lit E 4)\<rparr>,
        ExtMax =
          \<lparr>vX = fmul E (fsub E (fdiv E (float64_of_int E (wrap64 (X c + 1))) d) (lit E 0.5)) (lit E 4),
           vY = fmul E (fsub E (fdiv E (float64_of_int E (wrap64 (Y c + 1))) d) (lit E 0.5)) (lit E 4)\<rparr>\<rparr>)"
  by (simp add: tileExtent_def Let_def Sub_def Scale_def)

lemma tileExtent_exact:
  fixes C S :: "real \<Rightarrow> real" and N :: "real \<Rightarrow> real \<Rightarrow> real \<Rightarrow> real \<Rightarrow> real"
  assumes z: "0 \<le> Z c" "Z c \<le> 53"
    and x: "0 \<le> X c" "X c < 2 ^ nat (Z c)" and y: "0 \<le> Y c" "Y c < 2 ^ nat (Z c)"
  shows "tileExtent (binary64 C S N) c =
    Some \<lparr>ExtMin = \<lparr>vX = 4 * (of_int (X c) / 2 ^ nat (Z c) - 1 / 2),
                        vY = 4 * (of_int (Y c) / 2 ^ nat (Z c) - 1 / 2)\<rparr>,
          ExtMax = \<lparr>vX = 4 * (of_int (X c + 1) / 2 ^ nat (Z c) - 1 / 2),
                        vY = 4 * (of_int (Y c + 1) / 2 ^ nat (Z c) - 1 / 2)\<rparr>\<rparr>"
proof -
  define F where "F = binary64 C S N"
  define K where "K a = fmul F (fsub F (fdiv F (float64_of_int F a)
      (float64_of_int F (2 ^ nat (Z c)))) (lit F 0.5)) (lit F 4)" for a
  have p: "(2::int) ^ nat (Z c) \<le> 2 ^ 53"
    using z by (intro power_increasing) simp_all
  have s: "shl_uint 1 (to_uint (Z c)) = 2 ^ nat (Z c)"
    using z by (intro shl_uint_one) simp_all
  have d: "float64_of_int F (2 ^ nat (Z c)) = 2 ^ nat (Z c)"
    using round64_int [of "2 ^ nat (Z c)"] p by (simp add: F_def binary64_simps)
  have w: "wrap64 (X c + 1) = X c + 1" "wrap64 (Y c + 1) = Y c + 1"
    using x y p by (simp_all add: wrap64_id)
  have K: "K a = 4 * (of_int a / 2 ^ nat (Z c) - 1 / 2)" if "0 \<le> a" "a \<le> 2 ^ nat (Z c)" for a
    unfolding K_def F_def using z that by (rule corner_exact)
  have "tileExtent F c =
    Some \<lparr>ExtMin = \<lparr>vX = K (X c), vY = K (Y c)\<rparr>,
          ExtMax = \<lparr>vX = K (X c + 1), vY = K (Y c + 1)\<rparr>\<rparr>"
    unfolding tileExtent_unfold s w K_def Let_def using d by simp
  moreover have "K (X c) = 4 * (of_int (X c) / 2 ^ nat (Z c) - 1 / 2)"
    using x by (intro K) simp_all
  moreover have "K (Y c) = 4 * (of_int (Y c) / 2 ^ nat (Z c) - 1 / 2)"
    using y by (intro K) simp_all
  moreover have "K (X c + 1) = 4 * (of_int (X c + 1) / 2 ^ nat (Z c) - 1 / 2)"
    using x by (intro K) simp_all
  moreover have "K (Y c + 1) = 4 * (of_int (Y c + 1) / 2 ^ nat (Z c) - 1 / 2)"
    using y by (intro K) simp_all
  ultimately show ?thesis
    unfolding F_def by (simp only:)
qed

subsection \<open>The rounding error of binary64\<close>

lemma rne_error: "\<bar>of_int (rne q) - q\<bar> \<le> 1 / 2"
proof -
  have "of_int \<lfloor>q\<rfloor> \<le> q" "q < of_int \<lfloor>q\<rfloor> + 1" by linarith+
  then show ?thesis by (auto simp: rne_def Let_def)
qed

lemma rne_nonneg: "0 \<le> q \<Longrightarrow> 0 \<le> rne q"
  by (auto simp: rne_def Let_def)

lemma round64_nonneg: "0 \<le> x \<Longrightarrow> 0 \<le> round64 x"
  by (auto simp: round64_def Let_def intro!: mult_nonneg_nonneg rne_nonneg divide_nonneg_nonneg)








text \<open>The error of one rounding, relative to the unit roundoff, and the float64 value
  of pi.\<close>

lemma eps64_pos: "0 < eps64" by (simp add: eps64_def)
lemma tiny64_pos: "0 < tiny64" by (simp add: tiny64_def)

lemma round64_rel_error:
  "\<bar>round64 x - x\<bar> \<le> eps64 * \<bar>x\<bar> + tiny64"
proof (cases "x = 0")
  case True
  then show ?thesis using tiny64_pos by (simp add: round64_def)
next
  case False
  define s where "s = max (expo x) (- 1022) - 52"
  define U :: real where "U = 2 powi s"
  have U: "0 < U" by (simp add: U_def)
  have "round64 x - x = (of_int (rne (x / U)) - x / U) * U"
    using False U by (simp add: round64_def s_def U_def Let_def field_simps)
  then have "\<bar>round64 x - x\<bar> = \<bar>of_int (rne (x / U)) - x / U\<bar> * U"
    using U by (simp add: abs_mult)
  also have "\<dots> \<le> 1 / 2 * U"
    using rne_error [of "x / U"] U by (intro mult_right_mono) simp_all
  finally have half: "\<bar>round64 x - x\<bar> \<le> U / 2" by simp
  have nn: "0 \<le> eps64 * \<bar>x\<bar>" using eps64_pos by simp
  show ?thesis
  proof (cases "- 1022 \<le> expo x")
    case True
    then have "s = expo x - 52" by (simp add: s_def)
    then have "U / 2 = 2 powi (expo x) / 2 ^ 53"
      by (simp add: U_def power_int_diff)
    also have "\<dots> \<le> \<bar>x\<bar> / 2 ^ 53"
      using expo_lower [OF False] by (simp add: divide_right_mono)
    also have "\<dots> = eps64 * \<bar>x\<bar>" by (simp add: eps64_def)
    finally show ?thesis using half tiny64_pos by linarith
  next
    case False
    then have "s = - 1074" by (simp add: s_def)
    then have "U / 2 = 2 powi (- 1075)"
      by (simp add: U_def power_int_diff)
    also have "\<dots> = tiny64"
      unfolding tiny64_def by (simp only: power_int_minus_divide) simp
    finally show ?thesis using half nn by linarith
  qed
qed

lemma tiny64_le_eps64: "tiny64 \<le> eps64 / 2 ^ 1022"
  unfolding tiny64_def eps64_def by (simp only: divide_divide_eq_left power_add [symmetric]) simp


lemma expo_pi: "expo pi = 1"
proof -
  have "2 \<le> \<lfloor>pi\<rfloor>" "\<lfloor>pi\<rfloor> < 4" using pi_ge_two pi_less_4 by linarith+
  then have "\<lfloor>pi\<rfloor> = 2 \<or> \<lfloor>pi\<rfloor> = 3" by linarith
  moreover have "bitlen 2 = 2" "bitlen 3 = 2" by code_simp+
  moreover have "1 \<le> \<bar>pi\<bar>" "\<bar>pi\<bar> = pi" using pi_ge_two by simp_all
  ultimately show ?thesis by (auto simp: expo_def)
qed

lemma rne_le: "q \<le> of_int n \<Longrightarrow> rne q \<le> n"
  by (auto simp: rne_def Let_def) linarith+

lemma round64_pi:
  "0 \<le> round64 pi" "round64 pi \<le> 4" "\<bar>round64 pi - pi\<bar> \<le> 2 * eps64"
proof -
  show "0 \<le> round64 pi" by (rule round64_nonneg) simp
  define U :: real where "U = 2 powi (- 51)"
  have U: "0 < U" by (simp add: U_def)
  have r: "round64 pi = of_int (rne (pi / U)) * U"
    by (simp add: round64_def expo_pi U_def Let_def)
  then have "round64 pi - pi = (of_int (rne (pi / U)) - pi / U) * U"
    using U by (simp add: field_simps)
  then have "\<bar>round64 pi - pi\<bar> = \<bar>of_int (rne (pi / U)) - pi / U\<bar> * U"
    using U by (simp add: abs_mult)
  also have "\<dots> \<le> 1 / 2 * U"
    using rne_error [of "pi / U"] U by (intro mult_right_mono) simp_all
  also have "\<dots> = 2 * eps64" by (simp add: U_def eps64_def power_int_minus_divide)
  finally show "\<bar>round64 pi - pi\<bar> \<le> 2 * eps64" .
  have "pi / U \<le> of_int (2 ^ 53)"
    using pi_less_4 by (simp add: U_def power_int_minus_divide)
  then have "rne (pi / U) \<le> 2 ^ 53" by (rule rne_le)
  then have "(of_int (rne (pi / U)) :: real) \<le> 2 ^ 53"
    by (metis of_int_le_iff of_int_numeral of_int_power)
  then have "of_int (rne (pi / U)) * U \<le> 2 ^ 53 * U"
    using U by (intro mult_right_mono) simp_all
  then show "round64 pi \<le> 4" unfolding r by (simp add: U_def power_int_minus_divide)
qed

lemma angle_error:
  fixes t s g :: real
  assumes s: "1 \<le> s"
    and g: "\<bar>g - round64 (t / 2) * s\<bar> \<le> eps64 * (\<bar>round64 (t / 2)\<bar> * s) + tiny64"
  shows "\<bar>round64 (g * round64 pi) - t * pi / 2 * s\<bar> \<le> s * (8 * eps64 * \<bar>t\<bar> + 10 * tiny64)"
proof -
  define A where "A = \<bar>t\<bar> / 2"
  define h where "h = round64 (t / 2)"
  define P where "P = round64 pi"
  define a where "a = round64 (g * P)"
  define X where "X = A * s"
  define D where "D = tiny64 * s"
  define UX where "UX = eps64 * X"
  define UD where "UD = eps64 * D"
  have u: "0 < eps64" "eps64 \<le> 1 / 1024" by (simp_all add: eps64_def)
  have A: "0 \<le> A" by (simp add: A_def)
  have X: "0 \<le> X" using A s by (simp add: X_def)
  have D: "0 \<le> D" "tiny64 \<le> D"
    using tiny64_pos s by (simp_all add: D_def mult_le_cancel_left1)
  have UX: "0 \<le> UX" "UX \<le> X / 1024"
    using u X mult_right_mono [OF u(2) X] by (simp_all add: UX_def)
  have UD: "0 \<le> UD" "UD \<le> D / 1024"
    using u D mult_right_mono [OF u(2) D(1)] by (simp_all add: UD_def)
  have P: "0 \<le> P" "P \<le> 4" "\<bar>P - pi\<bar> \<le> 2 * eps64"
    using round64_pi by (simp_all add: P_def)
  have eh: "\<bar>h - t / 2\<bar> \<le> eps64 * A + tiny64"
    using round64_rel_error [of "t / 2"] by (simp add: h_def A_def)
  have ehs: "\<bar>h - t / 2\<bar> * s \<le> UX + D"
    using mult_right_mono [OF eh, of s] s by (simp add: UX_def X_def D_def algebra_simps)
  have "\<bar>h\<bar> \<le> A + (eps64 * A + tiny64)"
    using eh by (simp add: A_def)
  then have "\<bar>h\<bar> * s \<le> (A + (eps64 * A + tiny64)) * s"
    using s by (intro mult_right_mono) simp_all
  then have hs: "\<bar>h\<bar> * s \<le> X + UX + D"
    by (simp add: UX_def X_def D_def algebra_simps)
  have eg: "\<bar>g - h * s\<bar> \<le> eps64 * (\<bar>h\<bar> * s) + tiny64"
    using g by (simp add: h_def)
  have uux: "eps64 * UX \<le> UX / 1024" using mult_right_mono [OF u(2) UX(1)] by simp
  have uud: "eps64 * UD \<le> UD / 1024" using mult_right_mono [OF u(2) UD(1)] by simp
  have "eps64 * (\<bar>h\<bar> * s) \<le> eps64 * (X + UX + D)"
    using hs u by (intro mult_left_mono) simp_all
  also have "\<dots> = UX + eps64 * UX + UD"
    by (simp add: UX_def UD_def algebra_simps)
  finally have uhs: "eps64 * (\<bar>h\<bar> * s) \<le> UX + UX / 1024 + UD"
    using uux by linarith
  have eg': "\<bar>g - h * s\<bar> \<le> UX + UX / 1024 + UD + D"
    using eg uhs D by linarith
  have "\<bar>h * s\<bar> = \<bar>h\<bar> * s" using s by (simp add: abs_mult)
  then have G: "\<bar>g\<bar> \<le> X + UX + D + (UX + UX / 1024 + UD + D)"
    using eg' hs by linarith
  have "eps64 * \<bar>g\<bar> \<le> eps64 * (X + UX + D + (UX + UX / 1024 + UD + D))"
    using G u by (intro mult_left_mono) simp_all
  also have "\<dots> = UX + eps64 * UX + UD + (eps64 * UX + eps64 * UX / 1024 + eps64 * UD + UD)"
    by (simp add: UX_def UD_def algebra_simps)
  finally have uG: "eps64 * \<bar>g\<bar> \<le> UX + UX / 1024 + UD + (UX / 1024 + UX / 1024 / 1024 + UD / 1024 + UD)"
    using uux uud by linarith
  define e1 where "e1 = a - g * P"
  define e2 where "e2 = (g - h * s) * P"
  define e3 where "e3 = (h - t / 2) * s * P"
  define e4 where "e4 = t / 2 * s * (P - pi)"
  have "a - t * pi / 2 * s = e1 + e2 + e3 + e4"
    by (simp add: e1_def e2_def e3_def e4_def field_simps)
  then have tri: "\<bar>a - t * pi / 2 * s\<bar> \<le> \<bar>e1\<bar> + \<bar>e2\<bar> + \<bar>e3\<bar> + \<bar>e4\<bar>"
    by linarith
  have "\<bar>e1\<bar> \<le> eps64 * \<bar>g * P\<bar> + tiny64"
    unfolding e1_def a_def by (rule round64_rel_error)
  also have "eps64 * \<bar>g * P\<bar> = (eps64 * \<bar>g\<bar>) * P" using P by (simp add: abs_mult)
  also have "\<dots> \<le> (eps64 * \<bar>g\<bar>) * 4" using P u by (intro mult_left_mono) simp_all
  finally have b1: "\<bar>e1\<bar> \<le> (eps64 * \<bar>g\<bar>) * 4 + tiny64" by simp
  have "\<bar>e2\<bar> = \<bar>g - h * s\<bar> * P" using P by (simp add: e2_def abs_mult)
  also have "\<dots> \<le> \<bar>g - h * s\<bar> * 4" using P by (intro mult_left_mono) simp_all
  finally have b2: "\<bar>e2\<bar> \<le> \<bar>g - h * s\<bar> * 4" .
  have "\<bar>e3\<bar> = (\<bar>h - t / 2\<bar> * s) * P" using P s by (simp add: e3_def abs_mult)
  also have "\<dots> \<le> (\<bar>h - t / 2\<bar> * s) * 4" using P s by (intro mult_left_mono) simp_all
  finally have b3: "\<bar>e3\<bar> \<le> (\<bar>h - t / 2\<bar> * s) * 4" .
  have "\<bar>e4\<bar> = X * \<bar>P - pi\<bar>" using s by (simp add: e4_def abs_mult X_def A_def)
  also have "\<dots> \<le> X * (2 * eps64)" using P X by (intro mult_left_mono) simp_all
  finally have b4: "\<bar>e4\<bar> \<le> 2 * UX" by (simp add: UX_def algebra_simps)
  have "\<bar>a - t * pi / 2 * s\<bar> \<le> 16 * UX + 10 * D"
    using tri b1 b2 b3 b4 uG eg' ehs UX UD D by linarith
  also have "\<dots> = s * (8 * eps64 * \<bar>t\<bar> + 10 * tiny64)"
    by (simp add: UX_def X_def D_def A_def algebra_simps)
  finally show ?thesis by (simp add: a_def P_def)
qed

section \<open>Properties of the palette\<close>

lemma colouriseByValue_rgb_ideal:
  "colouriseByValue_rgb (ideal N) v = palette_table v"
  by (simp add: colouriseByValue_rgb_def palette_table_def ideal_simps Let_def)


lemma uint8_of_float_in_range:
  "0 \<le> x \<Longrightarrow> x < 256 \<Longrightarrow> uint8_of_float x = nat \<lfloor>x\<rfloor>"
  by (simp add: uint8_of_float_def trunc_def floor_less_iff)




section \<open>The palette at its band boundaries\<close>

lemma left_limit_of_band:
  fixes f g :: "real \<Rightarrow> 'a::topological_space"
  assumes "lo < b" and eq: "\<And>v. lo < v \<Longrightarrow> v < b \<Longrightarrow> f v = g v" and g: "isCont g b"
  shows "(f \<longlongrightarrow> g b) (at_left b)"
proof -
  have "eventually (\<lambda>v. f v = g v) (at_left b)"
    unfolding eventually_at_left [OF \<open>lo < b\<close>] using eq \<open>lo < b\<close> by blast
  moreover have "(g \<longlongrightarrow> g b) (at_left b)"
    using g unfolding isCont_def by (rule tendsto_mono [rotated]) (simp add: at_le)
  ultimately show ?thesis
    by (simp add: tendsto_cong)
qed

lemma palette_left_limits:
  "(palette_table \<longlongrightarrow> (0, 0, 0.4)) (at_left (- 0.1))"
  "(palette_table \<longlongrightarrow> (0.3, 0.3, 0.7)) (at_left 0.2)"
  "(palette_table \<longlongrightarrow> (0.5, 0.5, 0.25)) (at_left 0.201)"
  "(palette_table \<longlongrightarrow> (0.24, 0.32, 0.16)) (at_left 0.4)"
  "(palette_table \<longlongrightarrow> (0.06, 0.24, 0.03)) (at_left 0.6)"
  "(palette_table \<longlongrightarrow> (0.8, 0.7, 0.6)) (at_left 0.9)"
  "(palette_table \<longlongrightarrow> (0.96, 0.96, 0.96)) (at_left 1.2)"
proof -
  have "(palette_table \<longlongrightarrow> (\<lambda>v. (0, 0, 0.4)) (- 0.1)) (at_left (- 0.1))"
    by (rule left_limit_of_band [where lo = "- 1"]) (simp_all add: palette_table_def)
  then show "(palette_table \<longlongrightarrow> (0, 0, 0.4)) (at_left (- 0.1))" by simp
  have "(palette_table \<longlongrightarrow> (\<lambda>v. (0.1 + v, 0.1 + v, 0.5 + v)) 0.2) (at_left 0.2)"
    by (rule left_limit_of_band [where lo = "- 0.1"])
      (auto simp: palette_table_def intro!: continuous_intros)
  then show "(palette_table \<longlongrightarrow> (0.3, 0.3, 0.7)) (at_left 0.2)" by simp
  have "(palette_table \<longlongrightarrow> (\<lambda>v. (500 * (0.202 - v), 500 * (0.202 - v), 250 * (0.202 - v))) 0.201)
      (at_left 0.201)"
    by (rule left_limit_of_band [where lo = "0.2"])
      (auto simp: palette_table_def intro!: continuous_intros)
  then show "(palette_table \<longlongrightarrow> (0.5, 0.5, 0.25)) (at_left 0.201)" by simp
  have "(palette_table \<longlongrightarrow> (\<lambda>v. (1.2 * (0.60 - v), 1.6 * (0.60 - v), 0.8 * (0.60 - v))) 0.4)
      (at_left 0.4)"
    by (rule left_limit_of_band [where lo = "0.201"])
      (auto simp: palette_table_def intro!: continuous_intros)
  then show "(palette_table \<longlongrightarrow> (0.24, 0.32, 0.16)) (at_left 0.4)" by simp
  have "(palette_table \<longlongrightarrow> (\<lambda>v. (0.2 * (0.90 - v), 0.8 * (0.90 - v), 0.1 * (0.90 - v))) 0.6)
      (at_left 0.6)"
    by (rule left_limit_of_band [where lo = "0.4"])
      (auto simp: palette_table_def intro!: continuous_intros)
  then show "(palette_table \<longlongrightarrow> (0.06, 0.24, 0.03)) (at_left 0.6)" by simp
  have "(palette_table \<longlongrightarrow> (\<lambda>v. ((v - 0.10) * 0.8 / 0.80, (v - 0.10) * 0.7 / 0.80,
      (v - 0.10) * 0.6 / 0.80)) 0.9) (at_left 0.9)"
    by (rule left_limit_of_band [where lo = "0.6"])
      (auto simp: palette_table_def intro!: continuous_intros)
  then show "(palette_table \<longlongrightarrow> (0.8, 0.7, 0.6)) (at_left 0.9)" by simp
  have "(palette_table \<longlongrightarrow> (\<lambda>v. (0.8 * v, 0.8 * v, 0.8 * v)) 1.2) (at_left 1.2)"
    by (rule left_limit_of_band [where lo = "0.9"])
      (auto simp: palette_table_def intro!: continuous_intros)
  then show "(palette_table \<longlongrightarrow> (0.96, 0.96, 0.96)) (at_left 1.2)" by simp
qed

lemma palette_boundary_values:
  "palette_table (- 0.1) = (0, 0, 0.4)"
  "palette_table 0.2 = (1, 1, 0.5)"
  "palette_table 0.201 = (0.4788, 0.6384, 0.3192)"
  "palette_table 0.4 = (0.1, 0.4, 0.05)"
  "palette_table 0.6 = (0.5, 0.4375, 0.375)"
  "palette_table 0.9 = (0.72, 0.72, 0.72)"
  "palette_table 1.2 = (1, 1, 1)"
  by (simp_all add: palette_table_def)

lemma colouriseByValue_rgb_ideal_fun: "colouriseByValue_rgb (ideal N) = palette_table"
  by (rule ext) (rule colouriseByValue_rgb_ideal)

text \<open>
  C6, as amended. In exact arithmetic the fractional channels are continuous from the left at
  the boundary -0.1 only. At each of the other six boundaries the colour jumps from
  the left limit of the band below to the value of the band above: at 0.2 from
  (0.3, 0.3, 0.7) to (1, 1, 0.5), at 0.201 from (0.5, 0.5, 0.25) to
  (0.4788, 0.6384, 0.3192), at 0.4 from (0.24, 0.32, 0.16) to (0.1, 0.4, 0.05), at 0.6
  from (0.06, 0.24, 0.03) to (0.5, 0.4375, 0.375), at 0.9 from (0.8, 0.7, 0.6) to
  (0.72, 0.72, 0.72), and at 1.2 from (0.96, 0.96, 0.96) to (1, 1, 1).
\<close>

theorem colouriseByValue_boundaries:
  "continuous (at_left (- 0.1)) (colouriseByValue_rgb (ideal N)) \<and>
   (colouriseByValue_rgb (ideal N) \<longlongrightarrow> (0.3, 0.3, 0.7)) (at_left 0.2) \<and>
   colouriseByValue_rgb (ideal N) 0.2 = (1, 1, 0.5) \<and>
   (colouriseByValue_rgb (ideal N) \<longlongrightarrow> (0.5, 0.5, 0.25)) (at_left 0.201) \<and>
   colouriseByValue_rgb (ideal N) 0.201 = (0.4788, 0.6384, 0.3192) \<and>
   (colouriseByValue_rgb (ideal N) \<longlongrightarrow> (0.24, 0.32, 0.16)) (at_left 0.4) \<and>
   colouriseByValue_rgb (ideal N) 0.4 = (0.1, 0.4, 0.05) \<and>
   (colouriseByValue_rgb (ideal N) \<longlongrightarrow> (0.06, 0.24, 0.03)) (at_left 0.6) \<and>
   colouriseByValue_rgb (ideal N) 0.6 = (0.5, 0.4375, 0.375) \<and>
   (colouriseByValue_rgb (ideal N) \<longlongrightarrow> (0.8, 0.7, 0.6)) (at_left 0.9) \<and>
   colouriseByValue_rgb (ideal N) 0.9 = (0.72, 0.72, 0.72) \<and>
   (colouriseByValue_rgb (ideal N) \<longlongrightarrow> (0.96, 0.96, 0.96)) (at_left 1.2) \<and>
   colouriseByValue_rgb (ideal N) 1.2 = (1, 1, 1)"
proof -
  have "continuous (at_left (- 0.1)) palette_table"
    unfolding continuous_within palette_boundary_values by (rule palette_left_limits)
  then show ?thesis
    unfolding colouriseByValue_rgb_ideal_fun
    by (intro conjI palette_left_limits palette_boundary_values)
qed

text \<open>
  C6 as stated fails at the boundaries 0.2, 0.4, 0.6, 0.9 and 1.2, none of which is the
  sand and grassland boundary: the channels are not continuous from the left there.
  At 0.2, between shallow water and sand, the colour one billionth below is
  (76, 76, 178) where at 0.2 it is (255, 255, 127). In binary64 arithmetic the same two
  colours stand at the float64 value of 0.2 and at the float64 value next below it.
\<close>

theorem colouriseByValue_boundaries_counterexample:
  "\<not> continuous (at_left 0.2) (colouriseByValue_rgb (ideal (\<lambda>a b c d. 0))) \<and>
   \<not> continuous (at_left 0.4) (colouriseByValue_rgb (ideal (\<lambda>a b c d. 0))) \<and>
   \<not> continuous (at_left 0.6) (colouriseByValue_rgb (ideal (\<lambda>a b c d. 0))) \<and>
   \<not> continuous (at_left 0.9) (colouriseByValue_rgb (ideal (\<lambda>a b c d. 0))) \<and>
   \<not> continuous (at_left 1.2) (colouriseByValue_rgb (ideal (\<lambda>a b c d. 0))) \<and>
   colouriseByValue (ideal (\<lambda>a b c d. 0)) (0.2 - 1 / 10 ^ 9) = \<lparr>R = 76, G = 76, B = 178, A = 255\<rparr> \<and>
   colouriseByValue (ideal (\<lambda>a b c d. 0)) 0.2 = \<lparr>R = 255, G = 255, B = 127, A = 255\<rparr> \<and>
   colouriseByValue (binary64 (\<lambda>x. 0) (\<lambda>x. 0) (\<lambda>a b c d. 0)) (round64 0.2 - 1 / 2 ^ 55) =
     \<lparr>R = 76, G = 76, B = 178, A = 255\<rparr> \<and>
   colouriseByValue (binary64 (\<lambda>x. 0) (\<lambda>x. 0) (\<lambda>a b c d. 0)) (round64 0.2) =
     \<lparr>R = 255, G = 255, B = 127, A = 255\<rparr>"
proof (intro conjI)
  have jump: "\<not> continuous (at_left b) (colouriseByValue_rgb (ideal (\<lambda>a b c d. 0)))"
    if "(palette_table \<longlongrightarrow> l) (at_left b)" "palette_table b \<noteq> l" for b l
  proof
    assume "continuous (at_left b) (colouriseByValue_rgb (ideal (\<lambda>a b c d. 0)))"
    then have "(palette_table \<longlongrightarrow> palette_table b) (at_left b)"
      unfolding colouriseByValue_rgb_ideal_fun continuous_within .
    from tendsto_unique [OF _ this that(1)] that(2)
    show False by simp
  qed
  show "\<not> continuous (at_left 0.2) (colouriseByValue_rgb (ideal (\<lambda>a b c d. 0)))"
    by (rule jump [OF palette_left_limits(2)]) (simp add: palette_table_def)
  show "\<not> continuous (at_left 0.4) (colouriseByValue_rgb (ideal (\<lambda>a b c d. 0)))"
    by (rule jump [OF palette_left_limits(4)]) (simp add: palette_table_def)
  show "\<not> continuous (at_left 0.6) (colouriseByValue_rgb (ideal (\<lambda>a b c d. 0)))"
    by (rule jump [OF palette_left_limits(5)]) (simp add: palette_table_def)
  show "\<not> continuous (at_left 0.9) (colouriseByValue_rgb (ideal (\<lambda>a b c d. 0)))"
    by (rule jump [OF palette_left_limits(6)]) (simp add: palette_table_def)
  show "\<not> continuous (at_left 1.2) (colouriseByValue_rgb (ideal (\<lambda>a b c d. 0)))"
    by (rule jump [OF palette_left_limits(7)]) (simp add: palette_table_def)
  show "colouriseByValue (ideal (\<lambda>a b c d. 0)) (0.2 - 1 / 10 ^ 9) = \<lparr>R = 76, G = 76, B = 178, A = 255\<rparr>"
    by (simp add: colouriseByValue_def colouriseByValue_rgb_ideal palette_table_def ideal_simps
        uint8_of_float_def trunc_def)
  show "colouriseByValue (ideal (\<lambda>a b c d. 0)) 0.2 = \<lparr>R = 255, G = 255, B = 127, A = 255\<rparr>"
    by (simp add: colouriseByValue_def colouriseByValue_rgb_ideal palette_table_def ideal_simps
        uint8_of_float_def trunc_def)
  show "colouriseByValue (binary64 (\<lambda>x. 0) (\<lambda>x. 0) (\<lambda>a b c d. 0)) (round64 0.2 - 1 / 2 ^ 55) =
     \<lparr>R = 76, G = 76, B = 178, A = 255\<rparr>"
    by code_simp
  show "colouriseByValue (binary64 (\<lambda>x. 0) (\<lambda>x. 0) (\<lambda>a b c d. 0)) (round64 0.2) =
     \<lparr>R = 255, G = 255, B = 127, A = 255\<rparr>"
    by code_simp
qed

section \<open>Properties of \<^verbatim>\<open>hslToRGB\<close>\<close>

lemma Mod_two_range:
  assumes "0 \<le> x"
  shows "0 \<le> Mod x 2" and "Mod x 2 < 2"
proof -
  have t: "trunc (x / 2) = \<lfloor>x / 2\<rfloor>"
    using assms by (simp add: trunc_def)
  have "of_int \<lfloor>x / 2\<rfloor> \<le> x / 2" "x / 2 < of_int \<lfloor>x / 2\<rfloor> + 1"
    by linarith+
  then show "0 \<le> Mod x 2" and "Mod x 2 < 2"
    unfolding Mod_def t by linarith+
qed

lemma chroma_bounds:
  fixes l s :: real
  assumes "0 \<le> s" "s \<le> 1" "0 \<le> l" "l \<le> 1"
  defines "c \<equiv> (1 - \<bar>2 * l - 1\<bar>) * s"
  shows "0 \<le> c" and "c \<le> 2 * l" and "c \<le> 2 - 2 * l"
proof -
  have a: "0 \<le> 1 - \<bar>2 * l - 1\<bar>" using assms by simp
  show "0 \<le> c" unfolding c_def using a assms by simp
  have "c \<le> 1 - \<bar>2 * l - 1\<bar>"
    unfolding c_def using a assms by (simp add: mult_left_le)
  then show "c \<le> 2 * l" and "c \<le> 2 - 2 * l" by linarith+
qed

lemma sector_ideal:
  assumes "0 \<le> h" "h \<le> 360"
  shows "\<exists>r g b. hslToRGB_sector (ideal N) (h / 60) c x = Some (r, g, b) \<and>
           r \<in> {0, c, x} \<and> g \<in> {0, c, x} \<and> b \<in> {0, c, x}"
  using assms by (simp add: hslToRGB_sector_def ideal_simps)

text \<open>In exact arithmetic no valid input reaches a panic: the chroma is at most twice
  the lightness and at most twice its complement, so r, g and b lie between 0 and 1.\<close>

lemma hslToRGB_ideal_no_panic:
  assumes "0 \<le> hue" "hue \<le> 360" "0 \<le> saturation" "saturation \<le> 1"
    "0 \<le> lightness" "lightness \<le> 1"
  shows "\<exists>col. hslToRGB (ideal N) hue saturation lightness = Inr col \<and> A col = 255
            \<and> R col \<le> 255 \<and> G col \<le> 255 \<and> B col \<le> 255"
proof -
  define c where "c = (1 - \<bar>2 * lightness - 1\<bar>) * saturation"
  define x where "x = c * (1 - \<bar>Mod (hue / 60) 2 - 1\<bar>)"
  define m where "m = lightness - c / 2"
  have c: "0 \<le> c" "c \<le> 2 * lightness" "c \<le> 2 - 2 * lightness"
    unfolding c_def using chroma_bounds [OF assms(3-6)] by simp_all
  have "0 \<le> hue / 60" using assms by simp
  from Mod_two_range [OF this]
  have f: "0 \<le> 1 - \<bar>Mod (hue / 60) 2 - 1\<bar>" "1 - \<bar>Mod (hue / 60) 2 - 1\<bar> \<le> 1"
    by simp_all
  have x: "0 \<le> x" "x \<le> c"
    unfolding x_def using c(1) f by (simp_all add: mult_left_le)
  have m: "0 \<le> m" "m + c \<le> 1"
    unfolding m_def using c by simp_all
  obtain r g b where s: "hslToRGB_sector (ideal N) (hue / 60) c x = Some (r, g, b)"
    and rgb: "r \<in> {0, c, x}" "g \<in> {0, c, x}" "b \<in> {0, c, x}"
    using sector_ideal [OF assms(1,2)] by blast
  have bounds: "0 \<le> v + m \<and> v + m \<le> 1" if "v \<in> {0, c, x}" for v
    using that c x m by auto
  have conv: "uint8_of_float (v * 255) \<le> 255" if "0 \<le> v" "v \<le> 1" for v :: real
  proof -
    have "uint8_of_float (v * 255) = nat \<lfloor>v * 255\<rfloor>"
      using that by (intro uint8_of_float_in_range) auto
    moreover have "v * 255 < 256" using that by simp
    then have "\<lfloor>v * 255\<rfloor> \<le> 255" by linarith
    ultimately show ?thesis by linarith
  qed
  show ?thesis
    using assms s bounds [OF rgb(1)] bounds [OF rgb(2)] bounds [OF rgb(3)]
    by (simp add: hslToRGB_def ideal_simps Abs_def Let_def c_def [symmetric]
        x_def [symmetric] m_def [symmetric] conv
        del: distrib_right_numeral distrib_left_numeral)
qed

text \<open>
  C10. For every hue from 0 to 360 and saturation and lightness from 0 to 1,
  \<open>hslToRGB\<close> should reach no panic. In binary64 arithmetic it does: at hue 0,
  saturation 1 and lightness 3 / 2^56 the difference \<^verbatim>\<open>2*lightness-1\<close> rounds to
  -(1 - 2^-53), so the chroma is 2^-53, more than twice the lightness; then
  \<^verbatim>\<open>m\<close> is -2^-56, \<^verbatim>\<open>g\<close> is negative, and the range check on \<^verbatim>\<open>g\<close> panics.
\<close>

theorem hslToRGB_panics_on_valid_input:
  "(0::real) \<le> 0 \<and> (0::real) \<le> 360 \<and> (0::real) \<le> 1 \<and> (1::real) \<le> 1 \<and>
   (0::real) \<le> 3 / 2 ^ 56 \<and> (3::real) / 2 ^ 56 \<le> 1 \<and> round64 (3 / 2 ^ 56) = 3 / 2 ^ 56 \<and>
   hslToRGB (binary64 (\<lambda>x. 0) (\<lambda>x. 0) (\<lambda>a b c d. 0)) 0 1 (3 / 2 ^ 56) =
     Inl (PanicFloat (- (1 / 2 ^ 56)))"
proof -
  have "hslToRGB (binary64 (\<lambda>x. 0) (\<lambda>x. 0) (\<lambda>a b c d. 0)) 0 1 (3 / 2 ^ 56) =
     Inl (PanicFloat (- (1 / 2 ^ 56)))"
    by code_simp
  moreover have "round64 (3 / 2 ^ 56) = 3 / 2 ^ 56"
    by code_simp
  ultimately show ?thesis by simp
qed

section \<open>Properties of \<^verbatim>\<open>tileExtent\<close>\<close>

text \<open>In binary64 arithmetic the divisor is not zero for a zoom from 0 to 63, so
  \<open>tileExtent\<close> returns an extent for every tile that \<open>extractTileCoords\<close> accepts.\<close>

lemma tileExtent_binary64_returns:
  fixes C S :: "real \<Rightarrow> real" and N :: "real \<Rightarrow> real \<Rightarrow> real \<Rightarrow> real \<Rightarrow> real"
  assumes "0 \<le> Z c" "Z c < 64"
  shows "\<exists>e. tileExtent (binary64 C S N) c = Some e"
proof -
  have s: "shl_uint 1 (to_uint (Z c)) = 2 ^ nat (Z c)"
    using assms by (rule shl_uint_one)
  have "round64 (of_int (2 ^ nat (Z c))) = of_int 1 * 2 powi (Z c)"
    using assms by (subst round64_exact [where m = 1 and e = "Z c"]) (simp_all add: power_int_nonneg_exp)
  then have "float64_of_int (binary64 C S N) (2 ^ nat (Z c)) \<noteq> 0"
    by (simp add: binary64_simps)
  then show ?thesis
    by (simp add: tileExtent_unfold s Let_def)
qed

text \<open>
  C4, as amended. In binary64 arithmetic, for a tile with zoom from 0 to 53 and column
  and row from 0 up to (not including) 2 to the zoom, \<open>tileExtent\<close> returns exactly
  the rectangle from 4 (x / 2^z - 1/2) to 4 ((x + 1) / 2^z - 1/2) in each axis: no
  operation rounds. Its minimum is below its maximum in both axes, and its width and
  height are 4 / 2^z.
\<close>

theorem tileExtent_rectangle:
  fixes C S :: "real \<Rightarrow> real" and N :: "real \<Rightarrow> real \<Rightarrow> real \<Rightarrow> real \<Rightarrow> real"
  assumes "0 \<le> Z c" "Z c \<le> 53"
    and "0 \<le> X c" "X c < 2 ^ nat (Z c)" and "0 \<le> Y c" "Y c < 2 ^ nat (Z c)"
  shows "\<exists>e. tileExtent (binary64 C S N) c = Some e \<and>
    vX (ExtMin e) = 4 * (of_int (X c) / 2 ^ nat (Z c) - 1 / 2) \<and>
    vX (ExtMax e) = 4 * ((of_int (X c) + 1) / 2 ^ nat (Z c) - 1 / 2) \<and>
    vY (ExtMin e) = 4 * (of_int (Y c) / 2 ^ nat (Z c) - 1 / 2) \<and>
    vY (ExtMax e) = 4 * ((of_int (Y c) + 1) / 2 ^ nat (Z c) - 1 / 2) \<and>
    vX (ExtMin e) < vX (ExtMax e) \<and> vY (ExtMin e) < vY (ExtMax e) \<and>
    vX (ExtMax e) - vX (ExtMin e) = 4 / 2 ^ nat (Z c) \<and>
    vY (ExtMax e) - vY (ExtMin e) = 4 / 2 ^ nat (Z c)"
proof -
  have lt: "4 * ((of_int k :: real) / 2 ^ n - 1 / 2) < 4 * ((of_int k + 1) / 2 ^ n - 1 / 2)"
    for k :: int and n :: nat
    by (simp add: divide_strict_right_mono)
  have w: "4 * ((of_int k + 1) / 2 ^ n - 1 / 2) - 4 * ((of_int k :: real) / 2 ^ n - 1 / 2) = 4 / 2 ^ n"
    for k :: int and n :: nat
    by (simp add: field_simps)
  show ?thesis
    unfolding tileExtent_exact [OF assms, of C S N]
    using lt [of "X c" "nat (Z c)"] lt [of "Y c" "nat (Z c)"]
      w [of "X c" "nat (Z c)"] w [of "Y c" "nat (Z c)"]
    by simp
qed

text \<open>At zoom 0 the extent is the square from -2 to 2.\<close>

theorem tileExtent_rectangle_witness:
  "\<exists>e. tileExtent (binary64 (\<lambda>x. 0) (\<lambda>x. 0) (\<lambda>a b c d. 0)) \<lparr>Z = 0, X = 0, Y = 0\<rparr> = Some e \<and>
    vX (ExtMin e) = - 2 \<and> vX (ExtMax e) = 2 \<and> vY (ExtMin e) = - 2 \<and> vY (ExtMax e) = 2 \<and>
    vX (ExtMin e) < vX (ExtMax e) \<and> vY (ExtMin e) < vY (ExtMax e) \<and>
    vX (ExtMax e) - vX (ExtMin e) = 4 \<and> vY (ExtMax e) - vY (ExtMin e) = 4"
  using tileExtent_rectangle [of "\<lparr>Z = 0, X = 0, Y = 0\<rparr>" "\<lambda>x. 0" "\<lambda>x. 0" "\<lambda>a b c d. 0"]
  by simp

text \<open>
  C4 as stated fails in binary64 arithmetic from zoom 54 on. The tile at zoom 54 and
  column 2^53 + 1 is valid, but \<^verbatim>\<open>float64(coords.X)\<close> rounds the column to 2^53: the
  minimum x is 0 where the claim has 2^-52, and the width is 2^-51, twice 4 / 2^54.
  The tile at zoom 55, column 0 has minimum x equal to maximum x.
\<close>

theorem tileExtent_rectangle_counterexample:
  "(0::int) \<le> 2 ^ 53 + 1 \<and> (2 ^ 53 + 1 :: int) < 2 ^ 54 \<and>
   tileExtent (binary64 (\<lambda>x. 0) (\<lambda>x. 0) (\<lambda>a b c d. 0)) \<lparr>Z = 54, X = 2 ^ 53 + 1, Y = 0\<rparr> =
     Some \<lparr>ExtMin = \<lparr>vX = 0, vY = - 2\<rparr>, ExtMax = \<lparr>vX = 1 / 2 ^ 51, vY = - 2 + 1 / 2 ^ 52\<rparr>\<rparr> \<and>
   (0::real) \<noteq> 4 * ((2 ^ 53 + 1) / 2 ^ 54 - 1 / 2) \<and>
   (1 / 2 ^ 51 - 0 :: real) \<noteq> 4 / 2 ^ 54 \<and>
   tileExtent (binary64 (\<lambda>x. 0) (\<lambda>x. 0) (\<lambda>a b c d. 0)) \<lparr>Z = 55, X = 0, Y = 0\<rparr> =
     Some \<lparr>ExtMin = \<lparr>vX = - 2, vY = - 2\<rparr>, ExtMax = \<lparr>vX = - 2, vY = - 2\<rparr>\<rparr>"
proof -
  have "tileExtent (binary64 (\<lambda>x. 0) (\<lambda>x. 0) (\<lambda>a b c d. 0)) \<lparr>Z = 54, X = 2 ^ 53 + 1, Y = 0\<rparr> =
     Some \<lparr>ExtMin = \<lparr>vX = 0, vY = - 2\<rparr>, ExtMax = \<lparr>vX = 1 / 2 ^ 51, vY = - 2 + 1 / 2 ^ 52\<rparr>\<rparr>"
    by code_simp
  moreover
  have "tileExtent (binary64 (\<lambda>x. 0) (\<lambda>x. 0) (\<lambda>a b c d. 0)) \<lparr>Z = 55, X = 0, Y = 0\<rparr> =
     Some \<lparr>ExtMin = \<lparr>vX = - 2, vY = - 2\<rparr>, ExtMax = \<lparr>vX = - 2, vY = - 2\<rparr>\<rparr>"
    by code_simp
  ultimately show ?thesis by simp
qed

section \<open>Properties of \<^verbatim>\<open>simplexTorus\<close>\<close>

lemma simplexTorus_loop_octaves:
  assumes "bound < 2 ^ 63 - 1" "- (2 ^ 63) \<le> z"
  shows "simplexTorus_loop E c bound z scale val =
    Some (octaves E c (nat (bound + 1 - z)) scale val)"
  using assms(2)
proof (induction "nat (bound + 1 - z)" arbitrary: z scale val)
  case 0
  then have "\<not> z \<le> bound" by simp
  then show ?case using 0 by (subst simplexTorus_loop.simps) simp
next
  case (Suc n)
  then have le: "z \<le> bound" by linarith
  have w: "wrap64 (z + 1) = z + 1"
    using le assms(1) Suc.prems by (intro wrap64_id) simp_all
  have n: "n = nat (bound + 1 - (z + 1))" using Suc.hyps(2) by simp
  have s: "nat (bound + 1 - z) = Suc n" using Suc.hyps(2) by simp
  have "- (2 ^ 63) \<le> z + 1" using Suc.prems by simp
  note IH = Suc.hyps(1) [OF n this]
  have n': "nat (bound - z) = n" using Suc.hyps(2) by simp
  show ?case
    by (subst simplexTorus_loop.simps) (simp add: le w s IH Let_def n')
qed

lemma simplexTorus_octaves:
  assumes "- (2 ^ 63) \<le> Z coords" "Z coords < 2 ^ 63 - 17"
  shows "simplexTorus E c coords =
    Some (octaves E c (nat (Z coords + 16)) (float64_of_int E 1)
      (Noise4 E (Cos E (fmul E (fdiv E (vX c) (lit E 2)) (Pi E)))
                (Cos E (fmul E (fdiv E (vY c) (lit E 2)) (Pi E)))
                (Sin E (fmul E (fdiv E (vX c) (lit E 2)) (Pi E)))
                (Sin E (fmul E (fdiv E (vY c) (lit E 2)) (Pi E)))))"
proof -
  have w: "wrap64 (Z coords + 16) = Z coords + 16"
    using assms by (intro wrap64_id) simp_all
  have "Z coords + 16 < 2 ^ 63 - 1" using assms by simp
  from simplexTorus_loop_octaves [OF this, of 1]
  show ?thesis by (simp add: simplexTorus_def w Let_def add.commute)
qed

lemma octaves_ideal:
  "octaves (ideal N) c n (2 ^ j) val =
     val + (\<Sum>k = 1..n. N (cos (vX c * pi / 2 * 2 ^ (j + k))) (cos (vY c * pi / 2 * 2 ^ (j + k)))
                            (sin (vX c * pi / 2 * 2 ^ (j + k))) (sin (vY c * pi / 2 * 2 ^ (j + k)))
                          / 2 ^ (j + k))"
proof (induction n arbitrary: j val)
  case 0
  show ?case by simp
next
  case (Suc n)
  have s: "(\<Sum>k = 1..Suc n. f (j + k)) = f (Suc j) + (\<Sum>k = 1..n. f (Suc j + k))" for f :: "nat \<Rightarrow> real"
  proof -
    have "(\<Sum>k = 1..Suc n. f (j + k)) = (\<Sum>k = Suc 0..Suc n. f (j + k))" by simp
    also have "\<dots> = f (j + Suc 0) + (\<Sum>k = Suc (Suc 0)..Suc n. f (j + k))"
      by (rule sum.atLeast_Suc_atMost) simp
    also have "(\<Sum>k = Suc (Suc 0)..Suc n. f (j + k)) = (\<Sum>k = Suc 0..n. f (j + Suc k))"
      by (rule sum.shift_bounds_cl_Suc_ivl)
    finally show ?thesis by simp
  qed
  have p: "(2::real) ^ j * 2 = 2 ^ Suc j" by simp
  show ?case
    unfolding octaves.simps Let_def ideal_simps p Suc.IH
    by (subst s) (simp add: mult.assoc mult.commute mult.left_commute)
qed

lemma cos_whole_turns: "cos (x + 2 * pi * of_nat n) = cos x"
proof (induction n)
  case 0
  show ?case by simp
next
  case (Suc n)
  have "x + 2 * pi * of_nat (Suc n) = (x + 2 * pi * of_nat n) + 2 * pi"
    by (simp add: algebra_simps)
  then show ?case using Suc by (simp only: cos_periodic)
qed

lemma sin_whole_turns: "sin (x + 2 * pi * of_nat n) = sin x"
proof (induction n)
  case 0
  show ?case by simp
next
  case (Suc n)
  have "x + 2 * pi * of_nat (Suc n) = (x + 2 * pi * of_nat n) + 2 * pi"
    by (simp add: algebra_simps)
  then show ?case using Suc by (simp only: sin_periodic)
qed

lemma angle_shift: "(x + 4) * pi / 2 * 2 ^ k = x * pi / 2 * 2 ^ k + 2 * pi * of_nat (2 ^ k)"
  by (simp add: algebra_simps)

lemma simplexTorus_ideal:
  assumes "- (2 ^ 63) \<le> Z coords" "Z coords < 2 ^ 63 - 17"
  shows "simplexTorus (ideal N) c coords =
    Some (N (cos (vX c * pi / 2)) (cos (vY c * pi / 2)) (sin (vX c * pi / 2)) (sin (vY c * pi / 2)) +
          (\<Sum>k = 1..nat (Z coords + 16).
             N (cos (vX c * pi / 2 * 2 ^ k)) (cos (vY c * pi / 2 * 2 ^ k))
               (sin (vX c * pi / 2 * 2 ^ k)) (sin (vY c * pi / 2 * 2 ^ k)) / 2 ^ k))"
  using octaves_ideal [of N c "nat (Z coords + 16)" 0]
  by (simp add: simplexTorus_octaves [OF assms] ideal_simps mult.commute mult.left_commute)

lemma torus_periodic:
  assumes "- (2 ^ 63) \<le> Z coords" "Z coords < 2 ^ 63 - 17"
  shows "simplexTorus (ideal N) \<lparr>vX = x + 4, vY = y\<rparr> coords = simplexTorus (ideal N) \<lparr>vX = x, vY = y\<rparr> coords"
    and "simplexTorus (ideal N) \<lparr>vX = x, vY = y + 4\<rparr> coords = simplexTorus (ideal N) \<lparr>vX = x, vY = y\<rparr> coords"
proof -
  have c: "cos ((t + 4) * pi / 2 * 2 ^ k) = cos (t * pi / 2 * 2 ^ k)" for t :: real and k :: nat
    unfolding angle_shift by (rule cos_whole_turns)
  have s: "sin ((t + 4) * pi / 2 * 2 ^ k) = sin (t * pi / 2 * 2 ^ k)" for t :: real and k :: nat
    unfolding angle_shift by (rule sin_whole_turns)
  have c0: "cos ((t + 4) * pi / 2) = cos (t * pi / 2)" for t :: real
    using c [of t 0] by simp
  have s0: "sin ((t + 4) * pi / 2) = sin (t * pi / 2)" for t :: real
    using s [of t 0] by simp
  show "simplexTorus (ideal N) \<lparr>vX = x + 4, vY = y\<rparr> coords = simplexTorus (ideal N) \<lparr>vX = x, vY = y\<rparr> coords"
    unfolding simplexTorus_ideal [OF assms] by (simp only: Vector.simps c s c0 s0)
  show "simplexTorus (ideal N) \<lparr>vX = x, vY = y + 4\<rparr> coords = simplexTorus (ideal N) \<lparr>vX = x, vY = y\<rparr> coords"
    unfolding simplexTorus_ideal [OF assms] by (simp only: Vector.simps c s c0 s0)
qed

subsection \<open>The octaves in binary64\<close>

text \<open>In binary64 the scale of octave k is 2^k exactly, so the loop accumulates
  \<open>octave_sum64\<close>.\<close>

lemma round64_two_power: "round64 (2 ^ n) = 2 ^ n"
  by (rule round64_exact [where m = 1 and e = "int n"]) (simp_all add: power_int_def)

lemma round64_two: "round64 2 = 2"
  using round64_two_power [of 1] by simp

lemma round64_one: "round64 1 = 1"
  using round64_two_power [of 0] by simp

lemma angle64_error:
  "\<bar>angle64 t k - t * pi / 2 * 2 ^ k\<bar> \<le> 2 ^ k * (8 * eps64 * \<bar>t\<bar> + 10 * tiny64)"
  unfolding angle64_def
proof (rule angle_error)
  show "(1::real) \<le> 2 ^ k" by simp
  show "\<bar>round64 (round64 (t / 2) * 2 ^ k) - round64 (t / 2) * 2 ^ k\<bar>
      \<le> eps64 * (\<bar>round64 (t / 2)\<bar> * 2 ^ k) + tiny64"
    using round64_rel_error [of "round64 (t / 2) * 2 ^ k"] by (simp add: abs_mult)
qed

lemma angle64_0_error:
  "\<bar>angle64_0 t - t * pi / 2\<bar> \<le> 8 * eps64 * \<bar>t\<bar> + 10 * tiny64"
proof -
  have "\<bar>round64 (t / 2) - round64 (t / 2) * 1\<bar> \<le> eps64 * (\<bar>round64 (t / 2)\<bar> * 1) + tiny64"
    using eps64_pos tiny64_pos by simp
  from angle_error [OF _ this] show ?thesis by (simp add: angle64_0_def)
qed

lemma octaves_binary64_Suc:
  "octaves (binary64 C S N) c (Suc n) (2 ^ j) w =
     octaves (binary64 C S N) c n (2 ^ Suc j)
       (round64 (w + round64 (N (C (angle64 (vX c) (Suc j))) (C (angle64 (vY c) (Suc j)))
                                (S (angle64 (vX c) (Suc j))) (S (angle64 (vY c) (Suc j))) / 2 ^ Suc j)))"
proof -
  have s: "round64 (2 ^ j * 2) = 2 * 2 ^ j"
    using round64_two_power [of "Suc j"] by (simp add: mult.commute)
  show ?thesis
    by (simp add: binary64_simps Pi_def Let_def round64_two s angle64_def)
      (simp add: binary64_def)
qed

lemma octaves_ideal_Suc:
  "octaves (ideal N) c (Suc n) (2 ^ j) v =
     octaves (ideal N) c n (2 ^ Suc j)
       (v + N (cos (vX c * pi / 2 * 2 ^ Suc j)) (cos (vY c * pi / 2 * 2 ^ Suc j))
              (sin (vX c * pi / 2 * 2 ^ Suc j)) (sin (vY c * pi / 2 * 2 ^ Suc j)) / 2 ^ Suc j)"
  by (simp add: ideal_simps Let_def mult.commute mult.left_commute)

lemma octaves_octave_sum64:
  "octaves (binary64 C S N) c n (2 ^ j) (octave_sum64 C S N c j) = octave_sum64 C S N c (j + n)"
proof (induction n arbitrary: j)
  case 0
  show ?case by simp
next
  case (Suc n)
  show ?case
    unfolding octaves_binary64_Suc using Suc.IH [of "Suc j"] by simp
qed

lemma simplexTorus_binary64:
  assumes "- (2 ^ 63) \<le> Z coords" "Z coords < 2 ^ 63 - 17"
  shows "simplexTorus (binary64 C S N) c coords = Some (octave_sum64 C S N c (nat (Z coords + 16)))"
proof -
  have "simplexTorus (binary64 C S N) c coords =
      Some (octaves (binary64 C S N) c (nat (Z coords + 16)) (2 ^ 0) (octave_sum64 C S N c 0))"
    unfolding simplexTorus_octaves [OF assms]
    by (simp add: binary64_simps Pi_def round64_two round64_one angle64_0_def)
      (simp add: binary64_def)
  then show ?thesis unfolding octaves_octave_sum64 by simp
qed

lemma simplexTorus_ideal_sum:
  assumes "- (2 ^ 63) \<le> Z coords" "Z coords < 2 ^ 63 - 17"
  shows "simplexTorus (ideal N) c coords = Some (octave_sum N c (nat (Z coords + 16)))"
  unfolding octave_sum_def using assms by (rule simplexTorus_ideal)

subsection \<open>The rounding error of the octave sum\<close>

text \<open>The cosine and the sine are 1-Lipschitz, so an error in the angle is an error of
  the same size, at most, in each coordinate of the torus point. One octave adds at most
  \<open>octave_tolerance\<close>, and each addition grows the error so far by the factor
  1 + \<open>eps64\<close> at most.\<close>

lemma cos_lipschitz: fixes a b :: real shows "\<bar>cos a - cos b\<bar> \<le> \<bar>a - b\<bar>"
proof -
  have "cos a - cos b = 2 * sin ((a + b) / 2) * sin ((b - a) / 2)"
    by (rule cos_diff_cos)
  then have "\<bar>cos a - cos b\<bar> = 2 * \<bar>sin ((a + b) / 2)\<bar> * \<bar>sin ((b - a) / 2)\<bar>"
    by (simp add: abs_mult)
  also have "\<dots> \<le> 2 * 1 * \<bar>(b - a) / 2\<bar>"
    by (intro mult_mono abs_sin_le_one abs_sin_x_le_abs_x) simp_all
  finally show ?thesis by simp
qed

lemma sin_lipschitz: fixes a b :: real shows "\<bar>sin a - sin b\<bar> \<le> \<bar>a - b\<bar>"
proof -
  have "sin a - sin b = 2 * sin ((a - b) / 2) * cos ((a + b) / 2)"
    by (rule sin_diff_sin)
  then have "\<bar>sin a - sin b\<bar> = 2 * \<bar>sin ((a - b) / 2)\<bar> * \<bar>cos ((a + b) / 2)\<bar>"
    by (simp add: abs_mult)
  also have "\<dots> \<le> 2 * \<bar>(a - b) / 2\<bar> * 1"
    by (intro mult_mono abs_cos_le_one abs_sin_x_le_abs_x) simp_all
  finally show ?thesis by simp
qed

lemma noise_error:
  fixes C S :: "real \<Rightarrow> real" and N :: "real \<Rightarrow> real \<Rightarrow> real \<Rightarrow> real \<Rightarrow> real"
  assumes C: "\<And>a. \<bar>C a - cos a\<bar> \<le> \<eta>" and S: "\<And>a. \<bar>S a - sin a\<bar> \<le> \<eta>"
    and lip: "\<And>a b c d a' b' c' d'. \<bar>N a b c d - N a' b' c' d'\<bar> \<le>
        L * (\<bar>a - a'\<bar> + \<bar>b - b'\<bar> + \<bar>c - c'\<bar> + \<bar>d - d'\<bar>)"
    and x: "\<bar>ax - tx\<bar> \<le> ex" and y: "\<bar>ay - ty\<bar> \<le> ey"
  shows "\<bar>N (C ax) (C ay) (S ax) (S ay) - N (cos tx) (cos ty) (sin tx) (sin ty)\<bar>
    \<le> L * (4 * \<eta> + 2 * ex + 2 * ey)"
proof -
  have L: "0 \<le> L" using lip [of 1 0 0 0 0 0 0 0] by simp
  have cx: "\<bar>C ax - cos tx\<bar> \<le> \<eta> + ex"
    using C [of ax] cos_lipschitz [of ax tx] x by linarith
  have cy: "\<bar>C ay - cos ty\<bar> \<le> \<eta> + ey"
    using C [of ay] cos_lipschitz [of ay ty] y by linarith
  have sx: "\<bar>S ax - sin tx\<bar> \<le> \<eta> + ex"
    using S [of ax] sin_lipschitz [of ax tx] x by linarith
  have sy: "\<bar>S ay - sin ty\<bar> \<le> \<eta> + ey"
    using S [of ay] sin_lipschitz [of ay ty] y by linarith
  have "\<bar>C ax - cos tx\<bar> + \<bar>C ay - cos ty\<bar> + \<bar>S ax - sin tx\<bar> + \<bar>S ay - sin ty\<bar>
      \<le> 4 * \<eta> + 2 * ex + 2 * ey"
    using cx cy sx sy by linarith
  then have "L * (\<bar>C ax - cos tx\<bar> + \<bar>C ay - cos ty\<bar> + \<bar>S ax - sin tx\<bar> + \<bar>S ay - sin ty\<bar>)
      \<le> L * (4 * \<eta> + 2 * ex + 2 * ey)"
    using L by (rule mult_left_mono)
  with lip [of "C ax" "C ay" "S ax" "S ay" "cos tx" "cos ty" "sin tx" "sin ty"]
  show ?thesis by linarith
qed

lemma octave_step_error:
  fixes C S :: "real \<Rightarrow> real" and N :: "real \<Rightarrow> real \<Rightarrow> real \<Rightarrow> real \<Rightarrow> real"
    and c :: Vector and k :: nat
  assumes C: "\<And>a. \<bar>C a - cos a\<bar> \<le> \<eta>" and S: "\<And>a. \<bar>S a - sin a\<bar> \<le> \<eta>"
    and lip: "\<And>a b c d a' b' c' d'. \<bar>N a b c d - N a' b' c' d'\<bar> \<le>
        L * (\<bar>a - a'\<bar> + \<bar>b - b'\<bar> + \<bar>c - c'\<bar> + \<bar>d - d'\<bar>)"
    and bnd: "\<And>a b c d. \<bar>N a b c d\<bar> \<le> M"
    and k: "0 < k"
    and w: "\<bar>w - v\<bar> \<le> e" and v: "\<bar>v\<bar> \<le> M * (2 - 1 / 2 ^ (k - 1))"
  defines "nb \<equiv> N (C (angle64 (vX c) k)) (C (angle64 (vY c) k))
                    (S (angle64 (vX c) k)) (S (angle64 (vY c) k))"
    and "ni \<equiv> N (cos (vX c * pi / 2 * 2 ^ k)) (cos (vY c * pi / 2 * 2 ^ k))
                 (sin (vX c * pi / 2 * 2 ^ k)) (sin (vY c * pi / 2 * 2 ^ k))"
  shows "\<bar>round64 (w + round64 (nb / 2 ^ k)) - (v + ni / 2 ^ k)\<bar>
           \<le> (1 + eps64) * (e + octave_tolerance L M \<eta> c)"
    and "\<bar>v + ni / 2 ^ k\<bar> \<le> M * (2 - 1 / 2 ^ k)"
proof -
  define s :: real where "s = 2 ^ k"
  define Q where "Q = 16 * eps64 * (\<bar>vX c\<bar> + \<bar>vY c\<bar>) + 40 * tiny64"
  define b where "b = octave_tolerance L M \<eta> c"
  have s: "1 \<le> s" "0 < s" by (simp_all add: s_def)
  have L: "0 \<le> L" using lip [of 1 0 0 0 0 0 0 0] by simp
  have M: "0 \<le> M" using bnd [of 0 0 0 0] by linarith
  have \<eta>: "0 \<le> \<eta>" using C [of 0] by linarith
  have u: "0 < eps64" by (rule eps64_pos)
  have d: "0 < tiny64" by (rule tiny64_pos)
  have Q: "0 \<le> Q" using u d by (simp add: Q_def)
  have b: "b = L * (4 * \<eta> + Q) + 3 * eps64 * M + 2 * tiny64"
    by (simp add: b_def octave_tolerance_def Q_def algebra_simps)
  have "\<bar>nb - ni\<bar> \<le> L * (4 * \<eta> + 2 * (s * (8 * eps64 * \<bar>vX c\<bar> + 10 * tiny64))
      + 2 * (s * (8 * eps64 * \<bar>vY c\<bar> + 10 * tiny64)))"
    unfolding nb_def ni_def s_def
    by (rule noise_error [OF C S lip angle64_error angle64_error])
  also have "\<dots> = L * (4 * \<eta> + s * Q)"
    by (simp add: Q_def algebra_simps)
  finally have D: "\<bar>nb - ni\<bar> \<le> L * (4 * \<eta> + s * Q)" .
  have "\<bar>nb - ni\<bar> / s \<le> L * (4 * \<eta> + s * Q) / s"
    using D s by (simp add: divide_right_mono)
  also have "\<dots> = L * (4 * \<eta> / s + Q)"
    using s by (simp add: field_simps)
  also have "\<dots> \<le> L * (4 * \<eta> + Q)"
  proof -
    have "\<eta> * 1 \<le> \<eta> * s" using s \<eta> by (intro mult_left_mono) simp_all
    then have "4 * \<eta> / s \<le> 4 * \<eta>" using s by (simp add: field_simps)
    then show ?thesis using L by (intro mult_left_mono) simp_all
  qed
  finally have D': "\<bar>nb / s - ni / s\<bar> \<le> L * (4 * \<eta> + Q)"
    using s by (simp add: diff_divide_distrib [symmetric])
  have nbM: "\<bar>nb\<bar> \<le> M" and niM: "\<bar>ni\<bar> \<le> M"
    unfolding nb_def ni_def by (rule bnd)+
  have "\<bar>nb / s\<bar> \<le> M" 
  proof -
    have "\<bar>nb / s\<bar> = \<bar>nb\<bar> / s" using s by simp
    also have "\<dots> \<le> \<bar>nb\<bar>"
    proof -
      have "\<bar>nb\<bar> * 1 \<le> \<bar>nb\<bar> * s" using s by (intro mult_left_mono) simp_all
      then show ?thesis using s by (simp add: field_simps)
    qed
    finally show ?thesis using nbM by linarith
  qed
  then have "eps64 * \<bar>nb / s\<bar> \<le> eps64 * M"
    using u by (intro mult_left_mono) simp_all
  with round64_rel_error [of "nb / s"]
  have r1: "\<bar>round64 (nb / s) - nb / s\<bar> \<le> eps64 * M + tiny64" by linarith
  define t where "t = round64 (nb / s)"
  define \<tau> where "\<tau> = eps64 * M + tiny64 + L * (4 * \<eta> + Q)"
  have t: "\<bar>t - ni / s\<bar> \<le> \<tau>"
    using r1 D' unfolding t_def \<tau>_def by linarith
  have "\<bar>ni / s\<bar> = \<bar>ni\<bar> / s" using s by simp
  also have "\<dots> \<le> M / s" using niM s by (simp add: divide_right_mono)
  finally have nis: "\<bar>ni / s\<bar> \<le> M / s" .
  have half: "(1::real) / 2 ^ (k - 1) = 2 / s"
    using k by (cases k) (simp_all add: s_def)
  have "M * (2 - 1 / 2 ^ (k - 1)) + M / s = M * (2 - 1 / s)"
    unfolding half by (simp add: algebra_simps)
  with v nis show v': "\<bar>v + ni / 2 ^ k\<bar> \<le> M * (2 - 1 / 2 ^ k)"
    unfolding s_def [symmetric] by linarith
  have "M * (2 - 1 / s) \<le> M * 2"
    using M s by (intro mult_left_mono) simp_all
  with v' have v2: "\<bar>v + ni / s\<bar> \<le> 2 * M" unfolding s_def by linarith
  have sum: "\<bar>(w + t) - (v + ni / s)\<bar> \<le> e + \<tau>"
    using w t by linarith
  then have "\<bar>w + t\<bar> \<le> 2 * M + e + \<tau>" using v2 by linarith
  then have "eps64 * \<bar>w + t\<bar> \<le> eps64 * (2 * M + e + \<tau>)"
    using u by (intro mult_left_mono) simp_all
  with round64_rel_error [of "w + t"]
  have "\<bar>round64 (w + t) - (w + t)\<bar> \<le> eps64 * (2 * M + e + \<tau>) + tiny64" by linarith
  with sum have "\<bar>round64 (w + t) - (v + ni / s)\<bar> \<le> eps64 * (2 * M + e + \<tau>) + tiny64 + (e + \<tau>)"
    by linarith
  also have "\<dots> = (1 + eps64) * (e + \<tau>) + (2 * eps64 * M + tiny64)"
    by (simp add: algebra_simps)
  also have "\<dots> \<le> (1 + eps64) * (e + \<tau>) + (1 + eps64) * (2 * eps64 * M + tiny64)"
  proof -
    have "0 \<le> 2 * eps64 * M + tiny64" using u M d by simp
    then have "1 * (2 * eps64 * M + tiny64) \<le> (1 + eps64) * (2 * eps64 * M + tiny64)"
      using u by (intro mult_right_mono) simp_all
    then show ?thesis by simp
  qed
  also have "\<dots> = (1 + eps64) * (e + b)"
    unfolding b \<tau>_def by (simp add: algebra_simps)
  finally show "\<bar>round64 (w + round64 (nb / 2 ^ k)) - (v + ni / 2 ^ k)\<bar>
           \<le> (1 + eps64) * (e + octave_tolerance L M \<eta> c)"
    unfolding t_def s_def b_def .
qed

lemma one_plus_eps_power:
  assumes "real n * eps64 \<le> 1 / 2"
  shows "(1 + eps64) ^ n \<le> 1 + 2 * real n * eps64"
  using assms
proof (induction n)
  case 0
  show ?case by simp
next
  case (Suc n)
  have u: "0 < eps64" by (rule eps64_pos)
  have n: "real n * eps64 \<le> 1 / 2" using Suc.prems u by (simp add: algebra_simps)
  then have "2 * real n * eps64 * eps64 \<le> 1 * eps64"
    using u by (intro mult_right_mono) simp_all
  then have q: "2 * real n * eps64 * eps64 \<le> eps64" by simp
  have "(1 + eps64) ^ Suc n = (1 + eps64) ^ n * (1 + eps64)" by simp
  also have "\<dots> \<le> (1 + 2 * real n * eps64) * (1 + eps64)"
    using Suc.IH [OF n] u by (intro mult_right_mono) simp_all
  also have "\<dots> = 1 + 2 * real n * eps64 + eps64 + 2 * real n * eps64 * eps64"
    by (simp add: algebra_simps)
  also have "\<dots> \<le> 1 + 2 * real (Suc n) * eps64"
    using q by (simp add: algebra_simps)
  finally show ?case .
qed

lemma octave_tolerance_nonneg:
  assumes "0 \<le> L" "0 \<le> M" "0 \<le> \<eta>"
  shows "0 \<le> octave_tolerance L M \<eta> c"
  using assms eps64_pos tiny64_pos by (simp add: octave_tolerance_def)

lemma octaves_error:
  fixes C S :: "real \<Rightarrow> real" and N :: "real \<Rightarrow> real \<Rightarrow> real \<Rightarrow> real \<Rightarrow> real"
  assumes C: "\<And>a. \<bar>C a - cos a\<bar> \<le> \<eta>" and S: "\<And>a. \<bar>S a - sin a\<bar> \<le> \<eta>"
    and lip: "\<And>a b c d a' b' c' d'. \<bar>N a b c d - N a' b' c' d'\<bar> \<le>
        L * (\<bar>a - a'\<bar> + \<bar>b - b'\<bar> + \<bar>c - c'\<bar> + \<bar>d - d'\<bar>)"
    and bnd: "\<And>a b c d. \<bar>N a b c d\<bar> \<le> M"
    and w: "\<bar>w - v\<bar> \<le> (1 + eps64) ^ j * (real (Suc j) * octave_tolerance L M \<eta> c)"
    and v: "\<bar>v\<bar> \<le> M * (2 - 1 / 2 ^ j)"
  shows "\<bar>octaves (binary64 C S N) c n (2 ^ j) w - octaves (ideal N) c n (2 ^ j) v\<bar>
    \<le> (1 + eps64) ^ (j + n) * (real (Suc (j + n)) * octave_tolerance L M \<eta> c)"
  using w v
proof (induction n arbitrary: j w v)
  case 0
  then show ?case by simp
next
  case (Suc n)
  define b where "b = octave_tolerance L M \<eta> c"
  define p where "p = (1 + eps64) ^ j"
  have L: "0 \<le> L" using lip [of 1 0 0 0 0 0 0 0] by simp
  have M: "0 \<le> M" using bnd [of 0 0 0 0] by linarith
  have \<eta>: "0 \<le> \<eta>" using C [of 0] by linarith
  have b: "0 \<le> b" unfolding b_def using L M \<eta> by (rule octave_tolerance_nonneg)
  have u: "0 < eps64" by (rule eps64_pos)
  have p: "1 \<le> p" unfolding p_def using u by (intro one_le_power) simp
  have v': "\<bar>v\<bar> \<le> M * (2 - 1 / 2 ^ (Suc j - 1))" using Suc.prems(2) by simp
  have "1 * b \<le> p * b" using p b by (intro mult_right_mono) simp_all
  then have "p * (real (Suc j) * b) + b \<le> p * (real (Suc (Suc j)) * b)"
    by (simp add: algebra_simps)
  then have "(1 + eps64) * (p * (real (Suc j) * b) + b) \<le> (1 + eps64) * (p * (real (Suc (Suc j)) * b))"
    using u by (intro mult_left_mono) simp_all
  also have "\<dots> = (1 + eps64) ^ Suc j * (real (Suc (Suc j)) * b)"
    by (simp add: p_def)
  finally have le: "(1 + eps64) * ((1 + eps64) ^ j * (real (Suc j) * octave_tolerance L M \<eta> c)
        + octave_tolerance L M \<eta> c)
      \<le> (1 + eps64) ^ Suc j * (real (Suc (Suc j)) * octave_tolerance L M \<eta> c)"
    unfolding p_def b_def .
  have w1: "\<bar>round64 (w + round64 (N (C (angle64 (vX c) (Suc j))) (C (angle64 (vY c) (Suc j)))
                (S (angle64 (vX c) (Suc j))) (S (angle64 (vY c) (Suc j))) / 2 ^ Suc j))
       - (v + N (cos (vX c * pi / 2 * 2 ^ Suc j)) (cos (vY c * pi / 2 * 2 ^ Suc j))
              (sin (vX c * pi / 2 * 2 ^ Suc j)) (sin (vY c * pi / 2 * 2 ^ Suc j)) / 2 ^ Suc j)\<bar>
      \<le> (1 + eps64) ^ Suc j * (real (Suc (Suc j)) * octave_tolerance L M \<eta> c)"
    using octave_step_error(1) [OF C S lip bnd _ Suc.prems(1) v', of c] le by simp
  have v1: "\<bar>v + N (cos (vX c * pi / 2 * 2 ^ Suc j)) (cos (vY c * pi / 2 * 2 ^ Suc j))
              (sin (vX c * pi / 2 * 2 ^ Suc j)) (sin (vY c * pi / 2 * 2 ^ Suc j)) / 2 ^ Suc j\<bar>
      \<le> M * (2 - 1 / 2 ^ Suc j)"
    using octave_step_error(2) [OF C S lip bnd _ Suc.prems(1) v', of c] by simp
  from Suc.IH [OF w1 v1] show ?case
    unfolding octaves_binary64_Suc octaves_ideal_Suc by simp
qed

lemma simplexTorus_binary64_error:
  fixes C S :: "real \<Rightarrow> real" and N :: "real \<Rightarrow> real \<Rightarrow> real \<Rightarrow> real \<Rightarrow> real"
  assumes C: "\<And>a. \<bar>C a - cos a\<bar> \<le> \<eta>" and S: "\<And>a. \<bar>S a - sin a\<bar> \<le> \<eta>"
    and lip: "\<And>a b c d a' b' c' d'. \<bar>N a b c d - N a' b' c' d'\<bar> \<le>
        L * (\<bar>a - a'\<bar> + \<bar>b - b'\<bar> + \<bar>c - c'\<bar> + \<bar>d - d'\<bar>)"
    and bnd: "\<And>a b c d. \<bar>N a b c d\<bar> \<le> M"
    and Z: "- (2 ^ 63) \<le> Z coords" "Z coords + 16 \<le> 2 ^ 52"
  shows "\<exists>w v. simplexTorus (binary64 C S N) c coords = Some w \<and>
           simplexTorus (ideal N) c coords = Some v \<and>
           \<bar>w - v\<bar> \<le> 2 * (real (nat (Z coords + 16)) + 1) * octave_tolerance L M \<eta> c"
proof -
  define n where "n = nat (Z coords + 16)"
  define b where "b = octave_tolerance L M \<eta> c"
  define w0 where "w0 = N (C (angle64_0 (vX c))) (C (angle64_0 (vY c)))
                          (S (angle64_0 (vX c))) (S (angle64_0 (vY c)))"
  define v0 where "v0 = N (cos (vX c * pi / 2)) (cos (vY c * pi / 2))
                          (sin (vX c * pi / 2)) (sin (vY c * pi / 2))"
  have L: "0 \<le> L" using lip [of 1 0 0 0 0 0 0 0] by simp
  have M: "0 \<le> M" using bnd [of 0 0 0 0] by linarith
  have \<eta>: "0 \<le> \<eta>" using C [of 0] by linarith
  have b: "0 \<le> b" unfolding b_def using L M \<eta> by (rule octave_tolerance_nonneg)
  have u: "0 < eps64" by (rule eps64_pos)
  have Z': "Z coords < 2 ^ 63 - 17" using Z(2) by simp
  have sb: "simplexTorus (binary64 C S N) c coords = Some (octaves (binary64 C S N) c n (2 ^ 0) w0)"
    unfolding simplexTorus_octaves [OF Z(1) Z'] n_def w0_def angle64_0_def
    by (simp add: binary64_simps Pi_def round64_two round64_one) (simp add: binary64_def)
  have si: "simplexTorus (ideal N) c coords = Some (octaves (ideal N) c n (2 ^ 0) v0)"
    unfolding simplexTorus_octaves [OF Z(1) Z'] n_def v0_def
    by (simp add: ideal_simps mult.commute mult.left_commute)
  have "\<bar>w0 - v0\<bar> \<le> L * (4 * \<eta> + 2 * (8 * eps64 * \<bar>vX c\<bar> + 10 * tiny64)
      + 2 * (8 * eps64 * \<bar>vY c\<bar> + 10 * tiny64))"
    unfolding w0_def v0_def
    by (rule noise_error [OF C S lip angle64_0_error angle64_0_error])
  also have "\<dots> \<le> b"
    using u M tiny64_pos by (simp add: b_def octave_tolerance_def algebra_simps)
  finally have w: "\<bar>w0 - v0\<bar> \<le> (1 + eps64) ^ 0 * (real (Suc 0) * octave_tolerance L M \<eta> c)"
    by (simp add: b_def)
  have v: "\<bar>v0\<bar> \<le> M * (2 - 1 / 2 ^ 0)" using bnd [of "cos (vX c * pi / 2)"] by (simp add: v0_def)
  from octaves_error [OF C S lip bnd w v, of n]
  have e: "\<bar>octaves (binary64 C S N) c n (2 ^ 0) w0 - octaves (ideal N) c n (2 ^ 0) v0\<bar>
      \<le> (1 + eps64) ^ n * (real (Suc n) * b)"
    by (simp add: b_def)
  have "real n \<le> 2 ^ 52"
  proof -
    have "int n \<le> 2 ^ 52" using Z(2) by (simp add: n_def)
    then have "real_of_int (int n) \<le> 2 ^ 52"
      by (metis of_int_le_iff of_int_numeral of_int_power)
    then show ?thesis by simp
  qed
  then have "real n * eps64 \<le> 2 ^ 52 * eps64"
    using u by (intro mult_right_mono) simp_all
  then have nu: "real n * eps64 \<le> 1 / 2" by (simp add: eps64_def)
  from one_plus_eps_power [OF nu] nu have "(1 + eps64) ^ n \<le> 2" by linarith
  then have "(1 + eps64) ^ n * (real (Suc n) * b) \<le> 2 * (real (Suc n) * b)"
    using b by (intro mult_right_mono) simp_all
  with e have "\<bar>octaves (binary64 C S N) c n (2 ^ 0) w0 - octaves (ideal N) c n (2 ^ 0) v0\<bar>
      \<le> 2 * (real n + 1) * b"
    by (simp add: algebra_simps)
  with sb si show ?thesis unfolding n_def b_def by blast
qed

lemma octave_sum64_error:
  fixes C S :: "real \<Rightarrow> real" and N :: "real \<Rightarrow> real \<Rightarrow> real \<Rightarrow> real \<Rightarrow> real"
    and coords :: TileCoords
  assumes C: "\<And>a. \<bar>C a - cos a\<bar> \<le> \<eta>" and S: "\<And>a. \<bar>S a - sin a\<bar> \<le> \<eta>"
    and lip: "\<And>a b c d a' b' c' d'. \<bar>N a b c d - N a' b' c' d'\<bar> \<le>
        L * (\<bar>a - a'\<bar> + \<bar>b - b'\<bar> + \<bar>c - c'\<bar> + \<bar>d - d'\<bar>)"
    and bnd: "\<And>a b c d. \<bar>N a b c d\<bar> \<le> M"
    and Z: "- (2 ^ 63) \<le> Z coords" "Z coords + 16 \<le> 2 ^ 52"
  shows "\<bar>octave_sum64 C S N c (nat (Z coords + 16)) - octave_sum N c (nat (Z coords + 16))\<bar>
     \<le> 2 * (real (nat (Z coords + 16)) + 1) * octave_tolerance L M \<eta> c"
proof -
  have Z': "Z coords < 2 ^ 63 - 17" using Z(2) by simp
  from simplexTorus_binary64_error [OF C S lip bnd Z, of c]
  show ?thesis
    unfolding simplexTorus_binary64 [OF Z(1) Z'] simplexTorus_ideal_sum [OF Z(1) Z'] by simp
qed

text \<open>
  C1, as amended. For every point c and every zoom Z with Z + 16 below the largest
  \<^verbatim>\<open>int\<close>, \<open>simplexTorus\<close> returns the octaves of the claim accumulated in the
  arithmetic it runs in. In exact arithmetic the result is \<open>octave_sum\<close>, the sum of
  the claim: Noise4 (cos (c.x pi / 2), cos (c.y pi / 2), sin (c.x pi / 2), sin (c.y pi / 2))
  plus, for each octave k from 1 to Z + 16, Noise4 at the angle times 2^k, divided by 2^k.
  In binary64 arithmetic the result is \<open>octave_sum64\<close>: the same octaves with each
  angle, each quotient and each addition rounded to float64, added from the first octave
  to the last. The two differ by at most 2 (Z + 17) times \<open>octave_tolerance L M \<eta> c\<close>
  when Z + 16 is at most 2^52, the noise primitive is L-Lipschitz in the 1-norm and
  bounded by M, and the cosine and the sine are accurate to \<eta>.
\<close>

theorem simplexTorus_octave_sum:
  fixes C S :: "real \<Rightarrow> real" and N :: "real \<Rightarrow> real \<Rightarrow> real \<Rightarrow> real \<Rightarrow> real"
  assumes "- (2 ^ 63) \<le> Z coords" "Z coords < 2 ^ 63 - 17"
  shows "simplexTorus (ideal N) c coords = Some (octave_sum N c (nat (Z coords + 16))) \<and>
    simplexTorus (binary64 C S N) c coords = Some (octave_sum64 C S N c (nat (Z coords + 16))) \<and>
    ((\<forall>a. \<bar>C a - cos a\<bar> \<le> \<eta>) \<and> (\<forall>a. \<bar>S a - sin a\<bar> \<le> \<eta>) \<and>
     (\<forall>a b c d a' b' c' d'. \<bar>N a b c d - N a' b' c' d'\<bar> \<le>
        L * (\<bar>a - a'\<bar> + \<bar>b - b'\<bar> + \<bar>c - c'\<bar> + \<bar>d - d'\<bar>)) \<and>
     (\<forall>a b c d. \<bar>N a b c d\<bar> \<le> M) \<and> Z coords + 16 \<le> 2 ^ 52 \<longrightarrow>
     \<bar>octave_sum64 C S N c (nat (Z coords + 16)) - octave_sum N c (nat (Z coords + 16))\<bar>
       \<le> 2 * (real (nat (Z coords + 16)) + 1) * octave_tolerance L M \<eta> c)"
proof (intro conjI impI)
  show "simplexTorus (ideal N) c coords = Some (octave_sum N c (nat (Z coords + 16)))"
    using assms by (rule simplexTorus_ideal_sum)
  show "simplexTorus (binary64 C S N) c coords = Some (octave_sum64 C S N c (nat (Z coords + 16)))"
    using assms by (rule simplexTorus_binary64)
next
  assume h: "(\<forall>a. \<bar>C a - cos a\<bar> \<le> \<eta>) \<and> (\<forall>a. \<bar>S a - sin a\<bar> \<le> \<eta>) \<and>
     (\<forall>a b c d a' b' c' d'. \<bar>N a b c d - N a' b' c' d'\<bar> \<le>
        L * (\<bar>a - a'\<bar> + \<bar>b - b'\<bar> + \<bar>c - c'\<bar> + \<bar>d - d'\<bar>)) \<and>
     (\<forall>a b c d. \<bar>N a b c d\<bar> \<le> M) \<and> Z coords + 16 \<le> 2 ^ 52"
  show "\<bar>octave_sum64 C S N c (nat (Z coords + 16)) - octave_sum N c (nat (Z coords + 16))\<bar>
       \<le> 2 * (real (nat (Z coords + 16)) + 1) * octave_tolerance L M \<eta> c"
    by (rule octave_sum64_error) (use h assms(1) in blast)+
qed

theorem simplexTorus_octave_sum_witness:
  "simplexTorus (ideal (\<lambda>a b c d. sin a)) \<lparr>vX = 1 / 2, vY = - 1\<rparr> \<lparr>Z = 3, X = 5, Y = 2\<rparr> =
     Some (octave_sum (\<lambda>a b c d. sin a) \<lparr>vX = 1 / 2, vY = - 1\<rparr> 19) \<and>
   simplexTorus (binary64 cos sin (\<lambda>a b c d. sin a)) \<lparr>vX = 1 / 2, vY = - 1\<rparr> \<lparr>Z = 3, X = 5, Y = 2\<rparr> =
     Some (octave_sum64 cos sin (\<lambda>a b c d. sin a) \<lparr>vX = 1 / 2, vY = - 1\<rparr> 19) \<and>
   \<bar>octave_sum64 cos sin (\<lambda>a b c d. sin a) \<lparr>vX = 1 / 2, vY = - 1\<rparr> 19 -
     octave_sum (\<lambda>a b c d. sin a) \<lparr>vX = 1 / 2, vY = - 1\<rparr> 19\<bar>
     \<le> 40 * (24 * eps64 + 40 * tiny64 + 3 * eps64 + 2 * tiny64)"
proof -
  have lip: "\<bar>sin a - sin a'\<bar> \<le> 1 * (\<bar>a - a'\<bar> + \<bar>b - b'\<bar> + \<bar>c - c'\<bar> + \<bar>d - d'\<bar>)"
    for a b c d a' b' c' d' :: real
    using sin_lipschitz [of a a'] by simp
  show ?thesis
    using simplexTorus_octave_sum [of "\<lparr>Z = 3, X = 5, Y = 2\<rparr>" "\<lambda>a b c d. sin a"
        "\<lparr>vX = 1 / 2, vY = - 1\<rparr>" cos sin 0 1 1] lip
    by (simp add: octave_tolerance_def)
qed

text \<open>
  C1 as stated fails in binary64 arithmetic, where the result is not the sum itself.
  With the cosine and sine of the reals and a noise primitive that is
  5404319552844595 / 2^54 (the float64 value of 0.3) everywhere, at zoom 0 the code
  returns 5404278321158553 / 2^53; the sum of the 17 terms of the claim is
  5404319552844595 / 2^54 times (2 - 2^-16), which is not a float64 number: the
  additions have rounded.
\<close>

theorem simplexTorus_octave_sum_counterexample:
  "simplexTorus (binary64 cos sin (\<lambda>a b c d. 5404319552844595 / 2 ^ 54))
      \<lparr>vX = 1 / 2, vY = - 1\<rparr> \<lparr>Z = 0, X = 0, Y = 0\<rparr> = Some (5404278321158553 / 2 ^ 53) \<and>
   (5404278321158553 / 2 ^ 53 :: real) \<noteq>
      5404319552844595 / 2 ^ 54 + (\<Sum>k = 1..16. 5404319552844595 / 2 ^ 54 / 2 ^ k)"
proof -
  have e: "octave_sum64 cos sin (\<lambda>a b c d. 5404319552844595 / 2 ^ 54) \<lparr>vX = 1 / 2, vY = - 1\<rparr> 16
      = 5404278321158553 / 2 ^ 53"
    by (simp add: eval_nat_numeral) code_simp
  have n: "(5404278321158553 / 2 ^ 53 :: real) \<noteq>
      5404319552844595 / 2 ^ 54 + (\<Sum>k = 1..16. 5404319552844595 / 2 ^ 54 / 2 ^ k)"
    by code_simp
  have "nat (Z \<lparr>Z = 0, X = 0, Y = 0\<rparr> + 16) = 16" by simp
  with simplexTorus_binary64 [of "\<lparr>Z = 0, X = 0, Y = 0\<rparr>" cos sin
      "\<lambda>a b c d. 5404319552844595 / 2 ^ 54" "\<lparr>vX = 1 / 2, vY = - 1\<rparr>"]
  have "simplexTorus (binary64 cos sin (\<lambda>a b c d. 5404319552844595 / 2 ^ 54))
      \<lparr>vX = 1 / 2, vY = - 1\<rparr> \<lparr>Z = 0, X = 0, Y = 0\<rparr> = Some (5404278321158553 / 2 ^ 53)"
    unfolding e [symmetric] by simp
  with n show ?thesis by blast
qed

text \<open>
  C2. In binary64 arithmetic, for every point (x, y) and every zoom Z with Z + 16 at most
  2^52, the elevations at (x, y), at (x + 4, y) and at (x, y + 4) are returned, and the
  elevation one world period away differs from the elevation at (x, y) by at most
  2 (Z + 17) times the sum of the octave tolerances of the two points, when the noise
  primitive is L-Lipschitz in the 1-norm and bounded by M and the cosine and the sine are
  accurate to \<eta>. In exact arithmetic the three elevations are returned and are equal.
\<close>

theorem simplexTorus_world_wrap:
  fixes C S :: "real \<Rightarrow> real" and N :: "real \<Rightarrow> real \<Rightarrow> real \<Rightarrow> real \<Rightarrow> real"
  assumes C: "\<And>a. \<bar>C a - cos a\<bar> \<le> \<eta>" and S: "\<And>a. \<bar>S a - sin a\<bar> \<le> \<eta>"
    and lip: "\<And>a b c d a' b' c' d'. \<bar>N a b c d - N a' b' c' d'\<bar> \<le>
        L * (\<bar>a - a'\<bar> + \<bar>b - b'\<bar> + \<bar>c - c'\<bar> + \<bar>d - d'\<bar>)"
    and bnd: "\<And>a b c d. \<bar>N a b c d\<bar> \<le> M"
    and Z: "- (2 ^ 63) \<le> Z coords" "Z coords + 16 \<le> 2 ^ 52"
  shows "\<exists>v vx vy.
    simplexTorus (binary64 C S N) \<lparr>vX = x, vY = y\<rparr> coords = Some v \<and>
    simplexTorus (binary64 C S N) \<lparr>vX = x + 4, vY = y\<rparr> coords = Some vx \<and>
    simplexTorus (binary64 C S N) \<lparr>vX = x, vY = y + 4\<rparr> coords = Some vy \<and>
    \<bar>vx - v\<bar> \<le> 2 * (real (nat (Z coords + 16)) + 1) *
       (octave_tolerance L M \<eta> \<lparr>vX = x + 4, vY = y\<rparr> + octave_tolerance L M \<eta> \<lparr>vX = x, vY = y\<rparr>) \<and>
    \<bar>vy - v\<bar> \<le> 2 * (real (nat (Z coords + 16)) + 1) *
       (octave_tolerance L M \<eta> \<lparr>vX = x, vY = y + 4\<rparr> + octave_tolerance L M \<eta> \<lparr>vX = x, vY = y\<rparr>) \<and>
    (\<exists>e. simplexTorus (ideal N) \<lparr>vX = x, vY = y\<rparr> coords = Some e \<and>
         simplexTorus (ideal N) \<lparr>vX = x + 4, vY = y\<rparr> coords = Some e \<and>
         simplexTorus (ideal N) \<lparr>vX = x, vY = y + 4\<rparr> coords = Some e)"
proof -
  define K where "K = 2 * (real (nat (Z coords + 16)) + 1)"
  have Z': "Z coords < 2 ^ 63 - 17" using Z(2) by simp
  from simplexTorus_binary64_error [OF C S lip bnd Z, of "\<lparr>vX = x, vY = y\<rparr>"]
  obtain v e where v: "simplexTorus (binary64 C S N) \<lparr>vX = x, vY = y\<rparr> coords = Some v"
    and e: "simplexTorus (ideal N) \<lparr>vX = x, vY = y\<rparr> coords = Some e"
    and ve: "\<bar>v - e\<bar> \<le> K * octave_tolerance L M \<eta> \<lparr>vX = x, vY = y\<rparr>"
    unfolding K_def by blast
  from simplexTorus_binary64_error [OF C S lip bnd Z, of "\<lparr>vX = x + 4, vY = y\<rparr>"]
  obtain vx ex where vx: "simplexTorus (binary64 C S N) \<lparr>vX = x + 4, vY = y\<rparr> coords = Some vx"
    and ex: "simplexTorus (ideal N) \<lparr>vX = x + 4, vY = y\<rparr> coords = Some ex"
    and vex: "\<bar>vx - ex\<bar> \<le> K * octave_tolerance L M \<eta> \<lparr>vX = x + 4, vY = y\<rparr>"
    unfolding K_def by blast
  from simplexTorus_binary64_error [OF C S lip bnd Z, of "\<lparr>vX = x, vY = y + 4\<rparr>"]
  obtain vy ey where vy: "simplexTorus (binary64 C S N) \<lparr>vX = x, vY = y + 4\<rparr> coords = Some vy"
    and ey: "simplexTorus (ideal N) \<lparr>vX = x, vY = y + 4\<rparr> coords = Some ey"
    and vey: "\<bar>vy - ey\<bar> \<le> K * octave_tolerance L M \<eta> \<lparr>vX = x, vY = y + 4\<rparr>"
    unfolding K_def by blast
  have "ex = e" "ey = e"
    using torus_periodic [OF Z(1) Z', of N x y] e ex ey by simp_all
  with ve vex vey have "\<bar>vx - v\<bar> \<le> K *
       (octave_tolerance L M \<eta> \<lparr>vX = x + 4, vY = y\<rparr> + octave_tolerance L M \<eta> \<lparr>vX = x, vY = y\<rparr>)"
    and "\<bar>vy - v\<bar> \<le> K *
       (octave_tolerance L M \<eta> \<lparr>vX = x, vY = y + 4\<rparr> + octave_tolerance L M \<eta> \<lparr>vX = x, vY = y\<rparr>)"
    by (simp_all add: algebra_simps)
  with v vx vy e ex ey \<open>ex = e\<close> \<open>ey = e\<close> show ?thesis
    unfolding K_def by blast
qed

theorem simplexTorus_world_wrap_witness:
  "\<exists>v vx vy.
    simplexTorus (binary64 cos sin (\<lambda>a b c d. sin a)) \<lparr>vX = - 2, vY = 1\<rparr> \<lparr>Z = 5, X = 31, Y = 0\<rparr> = Some v \<and>
    simplexTorus (binary64 cos sin (\<lambda>a b c d. sin a)) \<lparr>vX = 2, vY = 1\<rparr> \<lparr>Z = 5, X = 31, Y = 0\<rparr> = Some vx \<and>
    simplexTorus (binary64 cos sin (\<lambda>a b c d. sin a)) \<lparr>vX = - 2, vY = 5\<rparr> \<lparr>Z = 5, X = 31, Y = 0\<rparr> = Some vy \<and>
    \<bar>vx - v\<bar> \<le> 4488 * eps64 + 3696 * tiny64 \<and>
    \<bar>vy - v\<bar> \<le> 7304 * eps64 + 3696 * tiny64 \<and>
    (\<exists>e. simplexTorus (ideal (\<lambda>a b c d. sin a)) \<lparr>vX = - 2, vY = 1\<rparr> \<lparr>Z = 5, X = 31, Y = 0\<rparr> = Some e \<and>
         simplexTorus (ideal (\<lambda>a b c d. sin a)) \<lparr>vX = 2, vY = 1\<rparr> \<lparr>Z = 5, X = 31, Y = 0\<rparr> = Some e \<and>
         simplexTorus (ideal (\<lambda>a b c d. sin a)) \<lparr>vX = - 2, vY = 5\<rparr> \<lparr>Z = 5, X = 31, Y = 0\<rparr> = Some e)"
proof -
  have lip: "\<bar>sin a - sin a'\<bar> \<le> 1 * (\<bar>a - a'\<bar> + \<bar>b - b'\<bar> + \<bar>c - c'\<bar> + \<bar>d - d'\<bar>)"
    for a b c d a' b' c' d' :: real
    using sin_lipschitz [of a a'] by simp
  show ?thesis
    using simplexTorus_world_wrap [of cos 0 sin "\<lambda>a b c d. sin a" 1 1 "\<lparr>Z = 5, X = 31, Y = 0\<rparr>" "- 2" 1, OF _ _ lip]
    by (simp add: octave_tolerance_def add.commute)
qed

text \<open>
  C3. In every arithmetic, two tile coordinates with the same zoom give the same
  elevation at every point c: the column and the row are not read. Where Z + 16 is
  below the largest \<^verbatim>\<open>int\<close> both calls return, with the same value.
\<close>

theorem simplexTorus_zoom_only:
  assumes "Z a = Z b"
  shows "simplexTorus E c a = simplexTorus E c b \<and>
     (- (2 ^ 63) \<le> Z a \<and> Z a < 2 ^ 63 - 17 \<longrightarrow>
        (\<exists>v. simplexTorus E c a = Some v \<and> simplexTorus E c b = Some v))"
proof
  show eq: "simplexTorus E c a = simplexTorus E c b"
    using assms by (simp add: simplexTorus_def)
  show "- (2 ^ 63) \<le> Z a \<and> Z a < 2 ^ 63 - 17 \<longrightarrow>
        (\<exists>v. simplexTorus E c a = Some v \<and> simplexTorus E c b = Some v)"
  proof
    assume "- (2 ^ 63) \<le> Z a \<and> Z a < 2 ^ 63 - 17"
    then have "\<exists>v. simplexTorus E c a = Some v"
      by (simp add: simplexTorus_octaves)
    with eq show "\<exists>v. simplexTorus E c a = Some v \<and> simplexTorus E c b = Some v"
      by simp
  qed
qed

theorem simplexTorus_zoom_only_witness:
  "simplexTorus (binary64 (\<lambda>x. 0) (\<lambda>x. 0) (\<lambda>a b c d. 0)) \<lparr>vX = - 2, vY = 1\<rparr> \<lparr>Z = 5, X = 0, Y = 0\<rparr>
     = simplexTorus (binary64 (\<lambda>x. 0) (\<lambda>x. 0) (\<lambda>a b c d. 0)) \<lparr>vX = - 2, vY = 1\<rparr> \<lparr>Z = 5, X = 31, Y = 7\<rparr> \<and>
   (\<exists>v. simplexTorus (binary64 (\<lambda>x. 0) (\<lambda>x. 0) (\<lambda>a b c d. 0)) \<lparr>vX = - 2, vY = 1\<rparr> \<lparr>Z = 5, X = 0, Y = 0\<rparr>
       = Some v \<and>
     simplexTorus (binary64 (\<lambda>x. 0) (\<lambda>x. 0) (\<lambda>a b c d. 0)) \<lparr>vX = - 2, vY = 1\<rparr> \<lparr>Z = 5, X = 31, Y = 7\<rparr>
       = Some v)"
  using simplexTorus_zoom_only [of "\<lparr>Z = 5, X = 0, Y = 0\<rparr>" "\<lparr>Z = 5, X = 31, Y = 7\<rparr>"
      "binary64 (\<lambda>x. 0) (\<lambda>x. 0) (\<lambda>a b c d. 0)" "\<lparr>vX = - 2, vY = 1\<rparr>"]
  by auto

section \<open>Properties of \<^verbatim>\<open>renderTile\<close>\<close>

declare renderTile_x.simps [simp del]
declare renderTile_y.simps [simp del]

lemma pixel_index_bound:
  fixes x y n :: nat
  assumes "x < n" "y < n"
  shows "y * n + x < n * n"
proof -
  have "y * n + x < y * n + n" using assms by simp
  also have "\<dots> = Suc y * n" by simp
  also have "\<dots> \<le> n * n" using assms by (intro mult_le_mono1) simp
  finally show ?thesis .
qed

lemma renderTile_x_row:
  assumes ret: "\<And>c. simplexTorus E c coords = Some (f c)"
    and y: "y < tileSize" and x: "x \<le> tileSize"
    and tile: "Width tile = tileSize" "Height tile = tileSize"
      "length (Pix tile) = tileSize * tileSize"
  shows "\<exists>t. renderTile_x E extent coords y x tile = Some t \<and>
    Width t = tileSize \<and> Height t = tileSize \<and> length (Pix t) = tileSize * tileSize \<and>
    (\<forall>i < tileSize * tileSize. Pix t ! i =
       (if y * tileSize + x \<le> i \<and> i < y * tileSize + tileSize
        then colouriseByValue E (f (renderTile_point E extent (i - y * tileSize) y))
        else Pix tile ! i))"
  using x tile
proof (induction "tileSize - x" arbitrary: x tile)
  case 0
  then have "x = tileSize" by simp
  then show ?case using 0 by (subst renderTile_x.simps) simp
next
  case (Suc n)
  then have xl: "x < tileSize" by simp
  define col where "col = colouriseByValue E (f (renderTile_point E extent x y))"
  define tile' where "tile' = SetRGBA tile x y col"
  have idx: "y * tileSize + x < tileSize * tileSize"
    using xl y by (rule pixel_index_bound)
  have t': "Width tile' = tileSize" "Height tile' = tileSize"
    "length (Pix tile') = tileSize * tileSize"
    using Suc.prems by (simp_all add: tile'_def SetRGBA_def)
  have p': "Pix tile' ! i = (if i = y * tileSize + x then col else Pix tile ! i)"
    if "i < tileSize * tileSize" for i
    using that Suc.prems xl y by (simp add: tile'_def SetRGBA_def nth_list_update)
  have n: "n = tileSize - (x + 1)" using Suc.hyps(2) by simp
  have "x + 1 \<le> tileSize" using xl by simp
  from Suc.hyps(1) [OF n this t']
  obtain t where t: "renderTile_x E extent coords y (x + 1) tile' = Some t"
    "Width t = tileSize" "Height t = tileSize" "length (Pix t) = tileSize * tileSize"
    and pt: "\<And>i. i < tileSize * tileSize \<Longrightarrow> Pix t ! i =
       (if y * tileSize + (x + 1) \<le> i \<and> i < y * tileSize + tileSize
        then colouriseByValue E (f (renderTile_point E extent (i - y * tileSize) y))
        else Pix tile' ! i)"
    by blast
  have step: "renderTile_x E extent coords y x tile = Some t"
    using t(1)
    by (subst renderTile_x.simps) (simp add: xl ret Let_def col_def [symmetric] tile'_def [symmetric])
  have "Pix t ! i =
       (if y * tileSize + x \<le> i \<and> i < y * tileSize + tileSize
        then colouriseByValue E (f (renderTile_point E extent (i - y * tileSize) y))
        else Pix tile ! i)" if i: "i < tileSize * tileSize" for i
  proof (cases "i = y * tileSize + x")
    case True
    then show ?thesis using pt [OF i] p' [OF i] xl by (simp add: col_def)
  next
    case False
    then show ?thesis using pt [OF i] p' [OF i] by auto
  qed
  with step t show ?case by blast
qed

lemma renderTile_y_rows:
  assumes ret: "\<And>c. simplexTorus E c coords = Some (f c)"
    and y: "y \<le> tileSize"
    and tile: "Width tile = tileSize" "Height tile = tileSize"
      "length (Pix tile) = tileSize * tileSize"
  shows "\<exists>t. renderTile_y E extent coords y tile = Some t \<and>
    Width t = tileSize \<and> Height t = tileSize \<and> length (Pix t) = tileSize * tileSize \<and>
    (\<forall>i < tileSize * tileSize. Pix t ! i =
       (if y * tileSize \<le> i
        then colouriseByValue E (f (renderTile_point E extent (i mod tileSize) (i div tileSize)))
        else Pix tile ! i))"
  using y tile
proof (induction "tileSize - y" arbitrary: y tile)
  case 0
  then have "y = tileSize" by simp
  then show ?case using 0 by (subst renderTile_y.simps) simp
next
  case (Suc n)
  then have yl: "y < tileSize" by simp
  have "0 \<le> tileSize" by simp
  from renderTile_x_row [of E coords f, OF ret yl this Suc.prems(2-4), of extent]
  obtain r where r: "renderTile_x E extent coords y 0 tile = Some r"
    "Width r = tileSize" "Height r = tileSize" "length (Pix r) = tileSize * tileSize"
    and pr: "\<And>i. i < tileSize * tileSize \<Longrightarrow> Pix r ! i =
       (if y * tileSize + 0 \<le> i \<and> i < y * tileSize + tileSize
        then colouriseByValue E (f (renderTile_point E extent (i - y * tileSize) y))
        else Pix tile ! i)"
    by blast
  have n: "n = tileSize - (y + 1)" using Suc.hyps(2) by simp
  have "y + 1 \<le> tileSize" using yl by simp
  from Suc.hyps(1) [OF n this r(2-4)]
  obtain t where t: "renderTile_y E extent coords (y + 1) r = Some t"
    "Width t = tileSize" "Height t = tileSize" "length (Pix t) = tileSize * tileSize"
    and pt: "\<And>i. i < tileSize * tileSize \<Longrightarrow> Pix t ! i =
       (if (y + 1) * tileSize \<le> i
        then colouriseByValue E (f (renderTile_point E extent (i mod tileSize) (i div tileSize)))
        else Pix r ! i)"
    by blast
  have step: "renderTile_y E extent coords y tile = Some t"
    using t(1) by (subst renderTile_y.simps) (simp add: yl r(1))
  have "Pix t ! i =
       (if y * tileSize \<le> i
        then colouriseByValue E (f (renderTile_point E extent (i mod tileSize) (i div tileSize)))
        else Pix tile ! i)" if i: "i < tileSize * tileSize" for i
  proof (cases "y * tileSize \<le> i \<and> i < y * tileSize + tileSize")
    case True
    then obtain k where k: "i = y * tileSize + k" "k < tileSize"
      by (metis add_diff_inverse_nat nat_add_left_cancel_less not_less)
    have "i div tileSize = y" "i mod tileSize = k" "i - y * tileSize = k"
      using k by simp_all
    then show ?thesis using pt [OF i] pr [OF i] True by simp
  next
    case False
    then show ?thesis using pt [OF i] pr [OF i] by auto
  qed
  with step t show ?case by blast
qed

lemma renderTile_pixels:
  assumes ret: "\<And>c. simplexTorus E c coords = Some (f c)"
    and ext: "tileExtent E coords = Some extent"
  shows "\<exists>t. renderTile E coords = Some t \<and>
    Width t = tileSize \<and> Height t = tileSize \<and> length (Pix t) = tileSize * tileSize \<and>
    (\<forall>px < tileSize. \<forall>py < tileSize.
       RGBAAt t px py = colouriseByValue E (f (renderTile_point E extent px py)))"
proof -
  have "0 \<le> tileSize" by simp
  from renderTile_y_rows [of E coords f 0 "NewRGBA tileSize tileSize" extent, OF ret this]
  obtain t where t: "renderTile_y E extent coords 0 (NewRGBA tileSize tileSize) = Some t"
    "Width t = tileSize" "Height t = tileSize" "length (Pix t) = tileSize * tileSize"
    and pt: "\<And>i. i < tileSize * tileSize \<Longrightarrow> Pix t ! i =
        colouriseByValue E (f (renderTile_point E extent (i mod tileSize) (i div tileSize)))"
    by (auto simp: NewRGBA_def)
  have "RGBAAt t px py = colouriseByValue E (f (renderTile_point E extent px py))"
    if "px < tileSize" "py < tileSize" for px py
    using that pt [OF pixel_index_bound [OF that]] t(2,3) by (simp add: RGBAAt_def)
  with t show ?thesis by (auto simp: renderTile_def ext)
qed

text \<open>
  C7. In every arithmetic, for a tile whose extent is finite (and Z + 16 below the
  largest \<^verbatim>\<open>int\<close>), \<open>renderTile\<close> returns a 256 by 256 image with every pixel set: the
  pixel at (px, py) is the palette colour of the elevation at
  wx = min.x + (max.x - min.x) px / 256 and wy = min.y + (max.x - min.x) py / 256, the y
  interpolation using the x span of the extent.
\<close>

theorem renderTile_pixel_colours:
  assumes "- (2 ^ 63) \<le> Z coords" "Z coords < 2 ^ 63 - 17"
    and "tileExtent E coords = Some extent"
  shows "\<exists>t. renderTile E coords = Some t \<and>
    Width t = 256 \<and> Height t = 256 \<and> length (Pix t) = 256 * 256 \<and>
    (\<forall>px < 256. \<forall>py < 256. \<exists>v.
       simplexTorus E
         \<lparr>vX = fadd E (vX (ExtMin extent))
                 (fdiv E (fmul E (fsub E (vX (ExtMax extent)) (vX (ExtMin extent)))
                            (float64_of_int E (int px))) (lit E 256)),
          vY = fadd E (vY (ExtMin extent))
                 (fdiv E (fmul E (fsub E (vX (ExtMax extent)) (vX (ExtMin extent)))
                            (float64_of_int E (int py))) (lit E 256))\<rparr> coords = Some v \<and>
       RGBAAt t px py = colouriseByValue E v)"
proof -
  define f where "f c = the (simplexTorus E c coords)" for c
  have ret: "simplexTorus E c coords = Some (f c)" for c
    unfolding f_def simplexTorus_octaves [OF assms(1,2)] by simp
  from renderTile_pixels [of E coords f, OF ret assms(3)]
  obtain t where t: "renderTile E coords = Some t" "Width t = tileSize" "Height t = tileSize"
    "length (Pix t) = tileSize * tileSize"
    and px: "\<And>px py. px < tileSize \<Longrightarrow> py < tileSize \<Longrightarrow>
       RGBAAt t px py = colouriseByValue E (f (renderTile_point E extent px py))"
    by blast
  have "\<exists>v. simplexTorus E (renderTile_point E extent px py) coords = Some v \<and>
       RGBAAt t px py = colouriseByValue E v" if "px < 256" "py < 256" for px py
    using px [of px py] that ret [of "renderTile_point E extent px py"]
    by (simp add: tileSize_def)
  then show ?thesis
    using t by (simp add: tileSize_def renderTile_point_def)
qed

theorem renderTile_pixel_colours_witness:
  "\<exists>t. renderTile (ideal (\<lambda>a b c d. 0)) \<lparr>Z = 0, X = 0, Y = 0\<rparr> = Some t \<and>
    Width t = 256 \<and> Height t = 256 \<and> length (Pix t) = 256 * 256 \<and>
    (\<forall>px < 256. \<forall>py < 256. \<exists>v.
       simplexTorus (ideal (\<lambda>a b c d. 0))
         \<lparr>vX = - 2 + 4 * real px / 256, vY = - 2 + 4 * real py / 256\<rparr> \<lparr>Z = 0, X = 0, Y = 0\<rparr> = Some v \<and>
       RGBAAt t px py = colouriseByValue (ideal (\<lambda>a b c d. 0)) v)"
proof -
  have e: "tileExtent (ideal (\<lambda>a b c d. 0)) \<lparr>Z = 0, X = 0, Y = 0\<rparr> =
      Some \<lparr>ExtMin = \<lparr>vX = - 2, vY = - 2\<rparr>, ExtMax = \<lparr>vX = 2, vY = 2\<rparr>\<rparr>"
    by (simp add: tileExtent_unfold ideal_simps to_uint_def shl_uint_def wrap64_def)
  show ?thesis
    using renderTile_pixel_colours [OF _ _ e] by (simp add: ideal_simps)
qed

subsection \<open>Runs with a noise primitive that keeps state\<close>

text \<open>Two runs from the same noise state agree, by induction on the first run; a run
  exists, by induction on the passes left in each loop; and a run with a pure primitive
  computes what the functions compute.\<close>

lemma loop_run_deterministic:
  assumes f: "noise_functional noise"
  shows "simplexTorus_loop_run E noise c bound z scale val s r s1 \<Longrightarrow>
    simplexTorus_loop_run E noise c bound z scale val s r' s2 \<Longrightarrow> r' = r \<and> s2 = s1"
proof (induction arbitrary: r' s2 rule: simplexTorus_loop_run.induct)
  case (loop_exit z scale val s)
  from loop_exit.prems loop_exit.hyps show ?case
    by (cases rule: simplexTorus_loop_run.cases) simp_all
next
  case (loop_pass z scale' scale s v s1 val r s')
  from loop_pass.prems show ?case
  proof (cases rule: simplexTorus_loop_run.cases)
    case loop_exit
    with loop_pass.hyps(1) show ?thesis by simp
  next
    case (loop_pass scale'' w t1)
    have sc: "scale'' = scale'" using loop_pass(2) \<open>scale' = fmul E scale (lit E 2)\<close> by simp
    from f loop_pass(3) \<open>noise s _ _ _ _ v s1\<close> have "w = v \<and> t1 = s1"
      unfolding noise_functional_def sc by blast
    with loop_pass(4) sc loop_pass.IH show ?thesis by blast
  qed
qed


lemma torus_run_deterministic:
  assumes f: "noise_functional noise"
    and a: "simplexTorus_run E noise c coords s r s1"
    and b: "simplexTorus_run E noise c coords s r' s2"
  shows "r' = r \<and> s2 = s1"
  using a
proof (cases rule: simplexTorus_run.cases)
  case (torus_run v t1)
  from b show ?thesis
  proof (cases rule: simplexTorus_run.cases)
    case (torus_run v' t2)
    from f \<open>noise s _ _ _ _ v t1\<close> \<open>noise s _ _ _ _ v' t2\<close> have "v' = v \<and> t2 = t1"
      unfolding noise_functional_def by blast
    with loop_run_deterministic [OF f \<open>simplexTorus_loop_run E noise c _ 1 _ v t1 r s1\<close>]
      \<open>simplexTorus_loop_run E noise c _ 1 _ v' t2 r' s2\<close>
    show ?thesis by blast
  qed
qed

lemma x_run_deterministic:
  assumes f: "noise_functional noise"
  shows "renderTile_x_run E noise extent coords y x tile s t s1 \<Longrightarrow>
    renderTile_x_run E noise extent coords y x tile s t' s2 \<Longrightarrow> t' = t \<and> s2 = s1"
proof (induction arbitrary: t' s2 rule: renderTile_x_run.induct)
  case (x_exit x tile s)
  from x_exit.prems x_exit.hyps show ?case
    by (cases rule: renderTile_x_run.cases) simp_all
next
  case (x_pass x s val s1 tile t s')
  from x_pass.prems show ?case
  proof (cases rule: renderTile_x_run.cases)
    case x_exit
    with x_pass.hyps(1) show ?thesis by simp
  next
    case (x_pass val' t1)
    from torus_run_deterministic [OF f x_pass.hyps(2) x_pass(2)]
    have "val' = val \<and> t1 = s1" .
    with x_pass(3) x_pass.IH show ?thesis by blast
  qed
qed

lemma y_run_deterministic:
  assumes f: "noise_functional noise"
  shows "renderTile_y_run E noise extent coords y tile s t s1 \<Longrightarrow>
    renderTile_y_run E noise extent coords y tile s t' s2 \<Longrightarrow> t' = t \<and> s2 = s1"
proof (induction arbitrary: t' s2 rule: renderTile_y_run.induct)
  case (y_exit y tile s)
  from y_exit.prems y_exit.hyps show ?case
    by (cases rule: renderTile_y_run.cases) simp_all
next
  case (y_pass y tile s row s1 t s')
  from y_pass.prems show ?case
  proof (cases rule: renderTile_y_run.cases)
    case y_exit
    with y_pass.hyps(1) show ?thesis by simp
  next
    case (y_pass row' t1)
    from x_run_deterministic [OF f y_pass.hyps(2) y_pass(2)]
    have "row' = row \<and> t1 = s1" .
    with y_pass(3) y_pass.IH show ?thesis by blast
  qed
qed

lemma tile_run_deterministic:
  assumes f: "noise_functional noise"
    and a: "renderTile_run E noise coords s t s1"
    and b: "renderTile_run E noise coords s t' s2"
  shows "t' = t \<and> s2 = s1"
  using a
proof (cases rule: renderTile_run.cases)
  case (tile_run extent)
  from b show ?thesis
  proof (cases rule: renderTile_run.cases)
    case (tile_run extent')
    with \<open>tileExtent E coords = Some extent\<close> have "extent' = extent" by simp
    with y_run_deterministic [OF f \<open>renderTile_y_run E noise extent coords 0 _ s t s1\<close>] tile_run(2)
    show ?thesis by blast
  qed
qed

lemma loop_run_returns:
  assumes r: "noise_returns noise" and b: "bound < 2 ^ 63 - 1" and z: "- (2 ^ 63) \<le> z"
  shows "\<exists>r s'. simplexTorus_loop_run E noise c bound z scale val s r s'"
  using z
proof (induction "nat (bound + 1 - z)" arbitrary: z scale val s)
  case 0
  then have "\<not> z \<le> bound" by simp
  then show ?case by (blast intro: loop_exit)
next
  case (Suc n)
  then have le: "z \<le> bound" by linarith
  have w: "wrap64 (z + 1) = z + 1"
    using le b Suc.prems by (intro wrap64_id) simp_all
  have n: "n = nat (bound + 1 - (z + 1))" using Suc.hyps(2) by simp
  have z1: "- (2 ^ 63) \<le> z + 1" using Suc.prems by simp
  define scale' where "scale' = fmul E scale (lit E 2)"
  from r obtain v s1 where v: "noise s (Cos E (fmul E (fmul E (fdiv E (vX c) (lit E 2)) scale') (Pi E)))
             (Cos E (fmul E (fmul E (fdiv E (vY c) (lit E 2)) scale') (Pi E)))
             (Sin E (fmul E (fmul E (fdiv E (vX c) (lit E 2)) scale') (Pi E)))
             (Sin E (fmul E (fmul E (fdiv E (vY c) (lit E 2)) scale') (Pi E))) v s1"
    unfolding noise_returns_def by blast
  from Suc.hyps(1) [OF n z1, of scale' "fadd E val (fdiv E v scale')" s1]
  obtain r' s' where "simplexTorus_loop_run E noise c bound (wrap64 (z + 1)) scale'
      (fadd E val (fdiv E v scale')) s1 r' s'"
    unfolding w by blast
  from loop_pass [OF le scale'_def v this] show ?case by blast
qed

lemma torus_run_returns:
  assumes r: "noise_returns noise" and Z: "- (2 ^ 63) \<le> Z coords" "Z coords < 2 ^ 63 - 17"
  shows "\<exists>r s'. simplexTorus_run E noise c coords s r s'"
proof -
  have w: "wrap64 (Z coords + 16) = Z coords + 16"
    using Z by (intro wrap64_id) simp_all
  have b: "wrap64 (Z coords + 16) < 2 ^ 63 - 1" unfolding w using Z by simp
  from r obtain v s1 where v: "noise s (Cos E (fmul E (fdiv E (vX c) (lit E 2)) (Pi E)))
             (Cos E (fmul E (fdiv E (vY c) (lit E 2)) (Pi E)))
             (Sin E (fmul E (fdiv E (vX c) (lit E 2)) (Pi E)))
             (Sin E (fmul E (fdiv E (vY c) (lit E 2)) (Pi E))) v s1"
    unfolding noise_returns_def by blast
  from loop_run_returns [OF r b, of 1 E c "float64_of_int E 1" v s1]
  obtain r' s' where "simplexTorus_loop_run E noise c (wrap64 (Z coords + 16)) 1
      (float64_of_int E 1) v s1 r' s'"
    by auto
  from torus_run [OF v this] show ?thesis by blast
qed

lemma SetRGBA_size:
  "Width (SetRGBA tile x y col) = Width tile" "Height (SetRGBA tile x y col) = Height tile"
  "length (Pix (SetRGBA tile x y col)) = length (Pix tile)"
  by (simp_all add: SetRGBA_def)

lemma x_run_returns:
  assumes r: "noise_returns noise" and Z: "- (2 ^ 63) \<le> Z coords" "Z coords < 2 ^ 63 - 17"
    and x: "x \<le> tileSize"
  shows "\<exists>t s'. renderTile_x_run E noise extent coords y x tile s t s'"
  using x
proof (induction "tileSize - x" arbitrary: x tile s)
  case 0
  then have "\<not> x < tileSize" by simp
  then show ?case by (blast intro: x_exit)
next
  case (Suc n)
  then have xl: "x < tileSize" by simp
  from torus_run_returns [OF r Z, of E "renderTile_point E extent x y" s]
  obtain val s1 where v: "simplexTorus_run E noise (renderTile_point E extent x y) coords s val s1"
    by blast
  have n: "n = tileSize - (x + 1)" using Suc.hyps(2) by simp
  have "x + 1 \<le> tileSize" using xl by simp
  from Suc.hyps(1) [OF n this, of "SetRGBA tile x y (colouriseByValue E val)" s1]
  obtain t s' where "renderTile_x_run E noise extent coords y (x + 1)
      (SetRGBA tile x y (colouriseByValue E val)) s1 t s'"
    by blast
  from x_pass [OF xl v this] show ?case by blast
qed

lemma y_run_returns:
  assumes r: "noise_returns noise" and Z: "- (2 ^ 63) \<le> Z coords" "Z coords < 2 ^ 63 - 17"
    and y: "y \<le> tileSize"
  shows "\<exists>t s'. renderTile_y_run E noise extent coords y tile s t s'"
  using y
proof (induction "tileSize - y" arbitrary: y tile s)
  case 0
  then have "\<not> y < tileSize" by simp
  then show ?case by (blast intro: y_exit)
next
  case (Suc n)
  then have yl: "y < tileSize" by simp
  from x_run_returns [OF r Z, of 0 E extent y tile s]
  obtain row s1 where v: "renderTile_x_run E noise extent coords y 0 tile s row s1"
    by auto
  have n: "n = tileSize - (y + 1)" using Suc.hyps(2) by simp
  have "y + 1 \<le> tileSize" using yl by simp
  from Suc.hyps(1) [OF n this, of row s1]
  obtain t s' where "renderTile_y_run E noise extent coords (y + 1) row s1 t s'"
    by blast
  from y_pass [OF yl v this] show ?case by blast
qed

lemma x_run_size:
  "renderTile_x_run E noise extent coords y x tile s t s' \<Longrightarrow>
    Width t = Width tile \<and> Height t = Height tile \<and> length (Pix t) = length (Pix tile)"
  by (induction rule: renderTile_x_run.induct) (simp_all add: SetRGBA_size)

lemma y_run_size:
  "renderTile_y_run E noise extent coords y tile s t s' \<Longrightarrow>
    Width t = Width tile \<and> Height t = Height tile \<and> length (Pix t) = length (Pix tile)"
  by (induction rule: renderTile_y_run.induct) (auto dest: x_run_size)

lemma tile_run_size:
  "renderTile_run E noise coords s t s' \<Longrightarrow>
    Width t = tileSize \<and> Height t = tileSize \<and> length (Pix t) = tileSize * tileSize"
  by (induction rule: renderTile_run.induct) (auto dest: y_run_size simp: NewRGBA_def)


lemma pure_noise_is_functional: "noise_functional (pure_noise N)"
  by (simp add: noise_functional_def pure_noise_def)

lemma pure_noise_always_returns: "noise_returns (pure_noise N)"
  by (simp add: noise_returns_def pure_noise_def)

lemma loop_run_pure:
  "simplexTorus_loop_run E (pure_noise (Noise4 E)) c bound z scale val s r s' \<Longrightarrow>
     simplexTorus_loop E c bound z scale val = Some r \<and> s' = s"
proof (induction rule: simplexTorus_loop_run.induct)
  case (loop_exit z scale val s)
  then show ?case by (subst simplexTorus_loop.simps) simp
next
  case (loop_pass z scale' scale s v s1 val r s')
  then show ?case
    by (subst simplexTorus_loop.simps) (simp add: pure_noise_def Let_def)
qed

lemma torus_run_pure:
  "simplexTorus_run E (pure_noise (Noise4 E)) c coords s r s' \<Longrightarrow>
     simplexTorus E c coords = Some r \<and> s' = s"
proof (induction rule: simplexTorus_run.induct)
  case (torus_run s v s1 r s')
  from torus_run(1) have "v = Noise4 E (Cos E (fmul E (fdiv E (vX c) (lit E 2)) (Pi E)))
             (Cos E (fmul E (fdiv E (vY c) (lit E 2)) (Pi E)))
             (Sin E (fmul E (fdiv E (vX c) (lit E 2)) (Pi E)))
             (Sin E (fmul E (fdiv E (vY c) (lit E 2)) (Pi E)))" and "s1 = s"
    by (simp_all add: pure_noise_def)
  with loop_run_pure [OF torus_run(2)] show ?case
    by (simp add: simplexTorus_def Let_def)
qed

lemma x_run_pure:
  "renderTile_x_run E (pure_noise (Noise4 E)) extent coords y x tile s t s' \<Longrightarrow>
     renderTile_x E extent coords y x tile = Some t \<and> s' = s"
proof (induction rule: renderTile_x_run.induct)
  case (x_exit x tile s)
  then show ?case by (subst renderTile_x.simps) simp
next
  case (x_pass x s val s1 tile t s')
  from torus_run_pure [OF x_pass.hyps(2)] x_pass.IH x_pass.hyps(1) show ?case
    by (subst renderTile_x.simps) (simp add: Let_def)
qed

lemma y_run_pure:
  "renderTile_y_run E (pure_noise (Noise4 E)) extent coords y tile s t s' \<Longrightarrow>
     renderTile_y E extent coords y tile = Some t \<and> s' = s"
proof (induction rule: renderTile_y_run.induct)
  case (y_exit y tile s)
  then show ?case by (subst renderTile_y.simps) simp
next
  case (y_pass y tile s row s1 t s')
  from x_run_pure [OF y_pass.hyps(2)] y_pass.IH y_pass.hyps(1) show ?case
    by (subst renderTile_y.simps) simp
qed

lemma tile_run_pure:
  "renderTile_run E (pure_noise (Noise4 E)) coords s t s' \<Longrightarrow>
     renderTile E coords = Some t \<and> s' = s"
  by (induction rule: renderTile_run.induct) (auto simp: renderTile_def dest: y_run_pure)

lemma tile_run_returns:
  assumes r: "noise_returns noise" and Z: "- (2 ^ 63) \<le> Z coords" "Z coords < 2 ^ 63 - 17"
    and e: "tileExtent E coords = Some extent"
  shows "\<exists>t s'. renderTile_run E noise coords s t s'"
proof -
  from y_run_returns [OF r Z, of 0 E extent "NewRGBA tileSize tileSize" s]
  obtain t s' where "renderTile_y_run E noise extent coords 0 (NewRGBA tileSize tileSize) s t s'"
    by auto
  from tile_run [OF e this] show ?thesis by blast
qed

text \<open>
  C9. For every tile whose extent is finite (Z + 16 below the largest \<^verbatim>\<open>int\<close>) and
  every noise primitive that returns on every call and whose value and next state are
  determined by its state and its arguments, the rasterizer has exactly one run from each
  noise state: it returns a 256 by 256 buffer, and every render of the tile that starts
  in the same noise state returns the same buffer and leaves the same noise state. With a
  pure noise primitive the buffers of the runs are the result of \<open>renderTile\<close>.
\<close>

theorem renderTile_deterministic:
  assumes "noise_functional noise" "noise_returns noise"
    and "- (2 ^ 63) \<le> Z coords" "Z coords < 2 ^ 63 - 17"
    and "tileExtent E coords = Some extent"
  shows "(\<exists>t s'. renderTile_run E noise coords s t s' \<and>
            Width t = 256 \<and> Height t = 256 \<and> length (Pix t) = 256 * 256 \<and>
            (\<forall>t' s''. renderTile_run E noise coords s t' s'' \<longrightarrow> t' = t \<and> s'' = s')) \<and>
         (\<forall>t. renderTile_run E (pure_noise (Noise4 E)) coords s t s = (renderTile E coords = Some t))"
proof
  from tile_run_returns [OF assms(2-5)]
  obtain t s' where r: "renderTile_run E noise coords s t s'" by blast
  from tile_run_size [OF r] have "Width t = 256 \<and> Height t = 256 \<and> length (Pix t) = 256 * 256"
    by (simp add: tileSize_def)
  moreover have "\<forall>t' s''. renderTile_run E noise coords s t' s'' \<longrightarrow> t' = t \<and> s'' = s'"
    using tile_run_deterministic [OF assms(1) r] by blast
  ultimately show "\<exists>t s'. renderTile_run E noise coords s t s' \<and>
            Width t = 256 \<and> Height t = 256 \<and> length (Pix t) = 256 * 256 \<and>
            (\<forall>t' s''. renderTile_run E noise coords s t' s'' \<longrightarrow> t' = t \<and> s'' = s')"
    using r by blast
  show "\<forall>t. renderTile_run E (pure_noise (Noise4 E)) coords s t s = (renderTile E coords = Some t)"
  proof (intro allI iffI)
    fix t assume "renderTile_run E (pure_noise (Noise4 E)) coords s t s"
    then show "renderTile E coords = Some t" by (auto dest: tile_run_pure)
  next
    fix t assume t: "renderTile E coords = Some t"
    from tile_run_returns [OF pure_noise_always_returns [of "Noise4 E"] assms(3-5), of s]
    obtain t' s' where r: "renderTile_run E (pure_noise (Noise4 E)) coords s t' s'" by blast
    from tile_run_pure [OF r] t have "t' = t" "s' = s" by simp_all
    with r show "renderTile_run E (pure_noise (Noise4 E)) coords s t s" by simp
  qed
qed

theorem renderTile_deterministic_witness:
  "(\<exists>t s'. renderTile_run (binary64 cos sin (\<lambda>a b c d. 0)) (\<lambda>s a b c d v s'. v = a * real s \<and> s' = Suc s)
              \<lparr>Z = 3, X = 5, Y = 2\<rparr> 7 t s' \<and>
            Width t = 256 \<and> Height t = 256 \<and> length (Pix t) = 256 * 256 \<and>
            (\<forall>t' s''. renderTile_run (binary64 cos sin (\<lambda>a b c d. 0))
                (\<lambda>s a b c d v s'. v = a * real s \<and> s' = Suc s) \<lparr>Z = 3, X = 5, Y = 2\<rparr> 7 t' s''
               \<longrightarrow> t' = t \<and> s'' = s')) \<and>
   (\<forall>t. renderTile_run (binary64 cos sin (\<lambda>a b c d. 0)) (pure_noise (\<lambda>a b c d. 0))
           \<lparr>Z = 3, X = 5, Y = 2\<rparr> (7::nat) t 7 =
         (renderTile (binary64 cos sin (\<lambda>a b c d. 0)) \<lparr>Z = 3, X = 5, Y = 2\<rparr> = Some t))"
proof -
  obtain e where e: "tileExtent (binary64 cos sin (\<lambda>a b c d. 0)) \<lparr>Z = 3, X = 5, Y = 2\<rparr> = Some e"
    using tileExtent_binary64_returns [of "\<lparr>Z = 3, X = 5, Y = 2\<rparr>" cos sin "\<lambda>a b c d. 0"] by auto
  have f: "noise_functional (\<lambda>s a b c d v s'. v = a * real s \<and> s' = Suc s)"
    by (simp add: noise_functional_def)
  have r: "noise_returns (\<lambda>s a b c d v s'. v = a * real s \<and> s' = Suc s)"
    by (simp add: noise_returns_def)
  show ?thesis
    using renderTile_deterministic [OF f r _ _ e, of 7] by (simp add: binary64_def)
qed

section \<open>Properties of \<^verbatim>\<open>extractTileCoords\<close>\<close>

lemma isDigit_separators [simp]:
  "\<not> isDigit CHR ''/''" "\<not> isDigit CHR ''.''" "\<not> isDigit CHR ''+''" "\<not> isDigit CHR ''-''"
  by (simp_all add: isDigit_def)

lemma takeWhile_digits:
  assumes "list_all isDigit ds" "\<not> isDigit ch"
  shows "takeWhile isDigit (ds @ ch # rest) = ds"
  using assms by (induction ds) simp_all

lemma dropWhile_digits:
  assumes "list_all isDigit ds" "\<not> isDigit ch"
  shows "dropWhile isDigit (ds @ ch # rest) = ch # rest"
  using assms by (induction ds) simp_all

lemma FindStringSubmatch_complete:
  assumes "list_all isDigit zs" "zs \<noteq> []" "list_all isDigit xs" "xs \<noteq> []"
    "list_all isDigit ys" "ys \<noteq> []"
  shows "pathRegex_FindStringSubmatch (''/'' @ zs @ ''/'' @ xs @ ''/'' @ ys @ ''.png'')
    = [''/'' @ zs @ ''/'' @ xs @ ''/'' @ ys @ ''.png'', zs, xs, ys]"
  using assms
  by (simp add: pathRegex_FindStringSubmatch_def takeWhile_digits dropWhile_digits Let_def)

lemma FindStringSubmatch_sound:
  assumes "length (pathRegex_FindStringSubmatch path) = 4"
  shows "\<exists>zs xs ys. pathRegex_FindStringSubmatch path = [path, zs, xs, ys] \<and>
    path = ''/'' @ zs @ ''/'' @ xs @ ''/'' @ ys @ ''.png'' \<and>
    list_all isDigit zs \<and> zs \<noteq> [] \<and> list_all isDigit xs \<and> xs \<noteq> [] \<and>
    list_all isDigit ys \<and> ys \<noteq> []"
proof -
  have split: "takeWhile isDigit r @ dropWhile isDigit r = r" for r
    by simp
  have digs: "list_all isDigit (takeWhile isDigit r)" for r
    by (induction r) simp_all
  from assms obtain r1 where p1: "path = CHR ''/'' # r1"
    by (auto simp: pathRegex_FindStringSubmatch_def split: list.splits if_splits)
  define zs where "zs = takeWhile isDigit r1"
  from assms p1 have z: "zs \<noteq> []"
    by (auto simp: pathRegex_FindStringSubmatch_def zs_def Let_def split: list.splits if_splits)
  from assms p1 obtain r3 where p2: "dropWhile isDigit r1 = CHR ''/'' # r3"
    by (auto simp: pathRegex_FindStringSubmatch_def Let_def split: list.splits if_splits)
  define xs where "xs = takeWhile isDigit r3"
  from assms p1 p2 have x: "xs \<noteq> []"
    by (auto simp: pathRegex_FindStringSubmatch_def xs_def Let_def split: list.splits if_splits)
  from assms p1 p2 obtain r5 where p3: "dropWhile isDigit r3 = CHR ''/'' # r5"
    by (auto simp: pathRegex_FindStringSubmatch_def Let_def split: list.splits if_splits)
  define ys where "ys = takeWhile isDigit r5"
  from assms p1 p2 p3 have y: "ys \<noteq> []" and p4: "dropWhile isDigit r5 = ''.png''"
    by (auto simp: pathRegex_FindStringSubmatch_def ys_def Let_def split: list.splits if_splits)
  have r5: "r5 = ys @ ''.png''" using split [of r5] by (simp add: ys_def p4)
  have r3: "r3 = xs @ ''/'' @ r5" using split [of r3] by (simp add: xs_def p3)
  have r1: "r1 = zs @ ''/'' @ r3" using split [of r1] by (simp add: zs_def p2)
  have "pathRegex_FindStringSubmatch path = [path, zs, xs, ys]"
    using z x y
    by (simp add: pathRegex_FindStringSubmatch_def p1 p2 p3 p4 Let_def
        zs_def [symmetric] xs_def [symmetric] ys_def [symmetric])
  moreover have "path = ''/'' @ zs @ ''/'' @ xs @ ''/'' @ ys @ ''.png''"
    by (simp add: p1 r1 r3 r5)
  ultimately show ?thesis
    using z x y digs [of r1] digs [of r3] digs [of r5]
    unfolding zs_def xs_def ys_def by blast
qed

lemma digits_value_nonneg:
  assumes "list_all isDigit ds"
  shows "0 \<le> digits_value ds"
proof -
  have "0 \<le> foldl (\<lambda>n ch. 10 * n + (int (of_char ch) - 48)) a ds" if "0 \<le> a" for a
    using assms that
  proof (induction ds arbitrary: a)
    case Nil
    then show ?case by simp
  next
    case (Cons ch ds)
    from Cons.prems have "0 \<le> 10 * a + (int (of_char ch) - 48)"
      by (simp add: isDigit_def)
    from Cons.IH [OF _ this] Cons.prems show ?case by simp
  qed
  then show ?thesis by (simp add: digits_value_def)
qed

lemma Atoi_digits:
  assumes "list_all isDigit ds" "ds \<noteq> []"
  shows "Atoi ds = (if digits_value ds < 2 ^ 63 then Inr (digits_value ds) else Inl ErrRange)"
proof -
  from assms obtain ch r where ds: "ds = ch # r" and ch: "isDigit ch"
    by (cases ds) auto
  from ch have "ch \<noteq> CHR ''+''" "ch \<noteq> CHR ''-''" by auto
  then show ?thesis using assms by (simp add: Atoi_def ds Let_def)
qed

lemma shl_int_one:
  assumes "0 \<le> z" "z < 2 ^ 63"
  shows "shl_int 1 (to_uint z) = (if z \<le> 62 then 2 ^ nat z else if z = 63 then - (2 ^ 63) else 0)"
proof -
  have u: "to_uint z = z" using assms by (simp add: to_uint_def)
  show ?thesis
  proof (cases "z \<le> 62")
    case True
    have "(2::int) ^ nat z \<le> 2 ^ 62"
      using True assms by (intro power_increasing) simp_all
    then have "(2::int) ^ nat z < 2 ^ 63" by simp
    moreover have "- (2 ^ 63) \<le> (2::int) ^ nat z"
      by (rule order_trans [of _ 0]) simp_all
    ultimately have "wrap64 (2 ^ nat z) = 2 ^ nat z"
      by (intro wrap64_id)
    then show ?thesis using True by (simp add: shl_int_def u)
  next
    case False
    show ?thesis
    proof (cases "z = 63")
      case True
      then show ?thesis by (simp add: shl_int_def to_uint_def wrap64_def)
    next
      case False
      with \<open>\<not> z \<le> 62\<close> show ?thesis by (simp add: shl_int_def u)
    qed
  qed
qed

lemma extractTileCoords_digits:
  assumes "list_all isDigit zs" "zs \<noteq> []" "list_all isDigit xs" "xs \<noteq> []"
    "list_all isDigit ys" "ys \<noteq> []"
  shows "extractTileCoords (''/'' @ zs @ ''/'' @ xs @ ''/'' @ ys @ ''.png'') =
    (if 2 ^ 63 \<le> digits_value zs then Inl (ExtractingZ ErrRange)
     else if 2 ^ 63 \<le> digits_value xs then Inl (ExtractingX ErrRange)
     else if 2 ^ 63 \<le> digits_value ys then Inl (ExtractingY ErrRange)
     else if digits_value zs \<le> 62 \<and> digits_value xs < 2 ^ nat (digits_value zs)
          \<and> digits_value ys < 2 ^ nat (digits_value zs)
       then Inr \<lparr>Z = digits_value zs, X = digits_value xs, Y = digits_value ys\<rparr>
       else Inl (InvalidTileCoordinates
              \<lparr>Z = digits_value zs, X = digits_value xs, Y = digits_value ys\<rparr>))"
proof -
  note nn = digits_value_nonneg [OF assms(1)] digits_value_nonneg [OF assms(3)]
    digits_value_nonneg [OF assms(5)]
  have sh: "shl_int 1 (to_uint (digits_value zs)) =
      (if digits_value zs \<le> 62 then 2 ^ nat (digits_value zs)
       else if digits_value zs = 63 then - (2 ^ 63) else 0)"
    if "digits_value zs < 2 ^ 63"
    using nn(1) that by (rule shl_int_one)
  define path where "path = ''/'' @ zs @ ''/'' @ xs @ ''/'' @ ys @ ''.png''"
  have m: "pathRegex_FindStringSubmatch path = [path, zs, xs, ys]"
    unfolding path_def using assms by (rule FindStringSubmatch_complete)
  have "extractTileCoords path =
    (if 2 ^ 63 \<le> digits_value zs then Inl (ExtractingZ ErrRange)
     else if 2 ^ 63 \<le> digits_value xs then Inl (ExtractingX ErrRange)
     else if 2 ^ 63 \<le> digits_value ys then Inl (ExtractingY ErrRange)
     else if digits_value zs \<le> 62 \<and> digits_value xs < 2 ^ nat (digits_value zs)
          \<and> digits_value ys < 2 ^ nat (digits_value zs)
       then Inr \<lparr>Z = digits_value zs, X = digits_value xs, Y = digits_value ys\<rparr>
       else Inl (InvalidTileCoordinates
              \<lparr>Z = digits_value zs, X = digits_value xs, Y = digits_value ys\<rparr>))"
    unfolding extractTileCoords_def m
    using nn by (auto simp: Atoi_digits assms Let_def sh)
  then show ?thesis unfolding path_def .
qed

lemma extractTileCoords_length:
  assumes "extractTileCoords path = Inr coords"
  shows "length (pathRegex_FindStringSubmatch path) = 4"
  using assms by (auto simp: extractTileCoords_def Let_def split: if_splits)

lemma pow2_le_62:
  assumes "0 \<le> z" "z \<le> 62"
  shows "(2::int) ^ nat z \<le> 2 ^ 62"
  using assms by (intro power_increasing) simp_all

text \<open>
  C8, as amended. \<open>extractTileCoords\<close> accepts a path exactly when it is
  \<^verbatim>\<open>/z/x/y.png\<close> with three non-empty runs of decimal digits, z is at most 62, and x
  and y are below 2^z; the coordinates are returned unchanged. The handler answers
  400, and renders nothing, exactly when no coordinates are accepted. The triple
  z = 3, x = 8, y = 8 is rejected.
\<close>

theorem extractTileCoords_accepts:
  "(extractTileCoords path = Inr coords) =
     (\<exists>zs xs ys. path = ''/'' @ zs @ ''/'' @ xs @ ''/'' @ ys @ ''.png'' \<and>
        zs \<noteq> [] \<and> list_all isDigit zs \<and> xs \<noteq> [] \<and> list_all isDigit xs \<and>
        ys \<noteq> [] \<and> list_all isDigit ys \<and>
        digits_value zs \<le> 62 \<and>
        digits_value xs < 2 ^ nat (digits_value zs) \<and>
        digits_value ys < 2 ^ nat (digits_value zs) \<and>
        coords = \<lparr>Z = digits_value zs, X = digits_value xs, Y = digits_value ys\<rparr>) \<and>
   (tileServer E path = StatusBadRequest) = (\<nexists>c. extractTileCoords path = Inr c) \<and>
   extractTileCoords ''/3/8/8.png'' = Inl (InvalidTileCoordinates \<lparr>Z = 3, X = 8, Y = 8\<rparr>)"
proof (intro conjI)
  show "(extractTileCoords path = Inr coords) =
     (\<exists>zs xs ys. path = ''/'' @ zs @ ''/'' @ xs @ ''/'' @ ys @ ''.png'' \<and>
        zs \<noteq> [] \<and> list_all isDigit zs \<and> xs \<noteq> [] \<and> list_all isDigit xs \<and>
        ys \<noteq> [] \<and> list_all isDigit ys \<and>
        digits_value zs \<le> 62 \<and>
        digits_value xs < 2 ^ nat (digits_value zs) \<and>
        digits_value ys < 2 ^ nat (digits_value zs) \<and>
        coords = \<lparr>Z = digits_value zs, X = digits_value xs, Y = digits_value ys\<rparr>)"
    (is "?L = ?R")
  proof
    assume L: ?L
    from FindStringSubmatch_sound [OF extractTileCoords_length [OF L]]
    obtain zs xs ys where p: "path = ''/'' @ zs @ ''/'' @ xs @ ''/'' @ ys @ ''.png''"
      and d: "list_all isDigit zs" "zs \<noteq> []" "list_all isDigit xs" "xs \<noteq> []"
        "list_all isDigit ys" "ys \<noteq> []"
      by blast
    from L have "digits_value zs \<le> 62 \<and> digits_value xs < 2 ^ nat (digits_value zs) \<and>
        digits_value ys < 2 ^ nat (digits_value zs) \<and>
        coords = \<lparr>Z = digits_value zs, X = digits_value xs, Y = digits_value ys\<rparr>"
      unfolding p extractTileCoords_digits [OF d] by (auto split: if_splits)
    with p d show ?R by blast
  next
    assume ?R
    then obtain zs xs ys where p: "path = ''/'' @ zs @ ''/'' @ xs @ ''/'' @ ys @ ''.png''"
      and d: "list_all isDigit zs" "zs \<noteq> []" "list_all isDigit xs" "xs \<noteq> []"
        "list_all isDigit ys" "ys \<noteq> []"
      and r: "digits_value zs \<le> 62" "digits_value xs < 2 ^ nat (digits_value zs)"
        "digits_value ys < 2 ^ nat (digits_value zs)"
      and c: "coords = \<lparr>Z = digits_value zs, X = digits_value xs, Y = digits_value ys\<rparr>"
      by blast
    have "(2::int) ^ nat (digits_value zs) \<le> 2 ^ 62"
      using digits_value_nonneg [OF d(1)] r(1) by (rule pow2_le_62)
    with r have "\<not> 2 ^ 63 \<le> digits_value zs" "\<not> 2 ^ 63 \<le> digits_value xs"
      "\<not> 2 ^ 63 \<le> digits_value ys"
      by simp_all
    then show ?L
      unfolding p extractTileCoords_digits [OF d] using r c by simp
  qed
  show "(tileServer E path = StatusBadRequest) = (\<nexists>c. extractTileCoords path = Inr c)"
    by (cases "extractTileCoords path") (simp_all add: tileServer_def)
  show "extractTileCoords ''/3/8/8.png'' = Inl (InvalidTileCoordinates \<lparr>Z = 3, X = 8, Y = 8\<rparr>)"
    by code_simp
qed

text \<open>
  C8 as stated fails from zoom 63 on: \<^verbatim>\<open>1 << uint(coords.Z)\<close> is an \<^verbatim>\<open>int\<close>, negative
  at 63 and 0 from 64 on, so the path \<^verbatim>\<open>/63/0/0.png\<close> is rejected although
  0 \<le> 0 < 2^63.
\<close>

theorem extractTileCoords_accepts_counterexample:
  "(0::int) \<le> 0 \<and> (0::int) < 2 ^ 63 \<and>
   extractTileCoords ''/63/0/0.png'' = Inl (InvalidTileCoordinates \<lparr>Z = 63, X = 0, Y = 0\<rparr>) \<and>
   tileServer (ideal (\<lambda>a b c d. 0)) ''/63/0/0.png'' = StatusBadRequest"
proof -
  have "extractTileCoords ''/63/0/0.png'' = Inl (InvalidTileCoordinates \<lparr>Z = 63, X = 0, Y = 0\<rparr>)"
    by code_simp
  then show ?thesis by (simp add: tileServer_def)
qed

end
